theory Spec2Isabelle
  imports Main "HOL-Library.Word" "HOL-Library.Sublist" "HOL-Library.Code_Target_Nat"
begin

unbundle bit_operations_syntax

section \<open>Lowering of HW modules to BTOR2 (LowerHWtoBTOR2.cpp)\<close>

subsection \<open>The IR as the pass reads it\<close>

text \<open>
  An \<open>Operation *\<close> is an address; \<open>None\<close> is \<open>nullptr\<close>. A \<open>Value\<close> is the
  result of an operation or a block argument (a module port); the defining operation of
  a block argument is \<open>nullptr\<close>.
\<close>

type_synonym size_t = "64 word"
type_synonym int64_t = "64 word"
type_synonym opptr = "nat option"

datatype val = OpResult nat | BlockArgument size_t

fun getDefiningOp :: "val \<Rightarrow> opptr" where
  "getDefiningOp (OpResult a) = Some a"
| "getDefiningOp (BlockArgument i) = None"

text \<open>
  Types: \<open>hw::getBitWidth\<close> gives the width of an integer or aggregate type and
  \<open>-1\<close> for every type without a known width (a clock among them).
\<close>

datatype hwtype = IntegerType nat | AggregateType nat | ClockType | UnknownWidthType

definition noWidth :: int64_t where
  "noWidth = - 1"

fun getBitWidth :: "hwtype \<Rightarrow> int64_t" where
  "getBitWidth (IntegerType w) = of_nat w"
| "getBitWidth (AggregateType w) = of_nat w"
| "getBitWidth ClockType = noWidth"
| "getBitWidth UnknownWidthType = noWidth"

datatype direction = Input | Output | InOut

record PortInfo =
  portName :: string
  dir :: direction
  portType :: hwtype
  argNum :: size_t

definition isInput :: "PortInfo \<Rightarrow> bool" where
  "isInput port = (dir port = Input)"

datatype ICmpPredicate = eq | ne | slt | sle | sgt | sge | ult | ule | ugt | uge
  | ceq | cne | weq | wne

fun stringifyICmpPredicate :: "ICmpPredicate \<Rightarrow> string" where
  "stringifyICmpPredicate eq = ''eq''"
| "stringifyICmpPredicate ne = ''ne''"
| "stringifyICmpPredicate slt = ''slt''"
| "stringifyICmpPredicate sle = ''sle''"
| "stringifyICmpPredicate sgt = ''sgt''"
| "stringifyICmpPredicate sge = ''sge''"
| "stringifyICmpPredicate ult = ''ult''"
| "stringifyICmpPredicate ule = ''ule''"
| "stringifyICmpPredicate ugt = ''ugt''"
| "stringifyICmpPredicate uge = ''uge''"
| "stringifyICmpPredicate ceq = ''ceq''"
| "stringifyICmpPredicate cne = ''cne''"
| "stringifyICmpPredicate weq = ''weq''"
| "stringifyICmpPredicate wne = ''wne''"

text \<open>
  The kinds of operation the module walk can meet. A constant carries the value
  \<open>getValue().getSExtValue()\<close>, an extract its low bit, a register its name; every kind
  outside the type switch of \<open>runOnOperation\<close> is \<open>UnsupportedOp\<close>.
\<close>

datatype opkind =
    HWOutputOp | HWConstantOp int64_t | HWWireOp
  | CombAddOp | CombSubOp | CombMulOp | CombDivUOp | CombDivSOp | CombModSOp
  | CombShlOp | CombShrUOp | CombShrSOp | CombAndOp | CombOrOp | CombXorOp
  | CombConcatOp
  | CombExtractOp size_t | CombICmpOp ICmpPredicate | CombMuxOp
  | SVAssertOp | SVAssumeOp | SVIfOp
  | SeqFirRegOp string
  | UnsupportedOp

text \<open>
  An operation: its address, kind, operands, result type and parent operation.
\<close>

datatype operation =
  Operation (opAddr: nat) (opKind: opkind) (opOperands: "val list") (opType: hwtype)
    (parentOp: "operation option")

record hwmodule =
  portList :: "PortInfo list"
  walkOrder :: "operation list"

subsection \<open>The output stream\<close>

text \<open>
  Every BTOR2 instruction is written by one chain of \<open><<\<close> on \<open>llvm::outs()\<close>:
  fields separated by \<open>wsStr\<close>, closed by \<open>nlStr\<close>. A field is an unsigned
  \<open>size_t\<close>, a signed \<open>int64_t\<close> or a string. The stream is the list of the lines
  written so far, and of the banners between modules.
\<close>

datatype field = N size_t | I int64_t | S string

datatype out_item = Line "field list" | Banner

definition digit :: "nat \<Rightarrow> char" where
  "digit d = ''0123456789'' ! d"

function dec :: "nat \<Rightarrow> string" where
  "dec n = (if n < 10 then [digit n] else dec (n div 10) @ [digit (n mod 10)])"
  by pat_completeness auto
termination
  by (relation "measure id") auto

declare dec.simps [simp del]

definition sdec :: "int \<Rightarrow> string" where
  "sdec i = (if i < 0 then CHR ''-'' # dec (nat (- i)) else dec (nat i))"

definition wsStr :: string where
  "wsStr = '' ''"

definition nlStr :: string where
  "nlStr = [CHR 0x0A]"

fun field_str :: "field \<Rightarrow> string" where
  "field_str (N n) = dec (unat n)"
| "field_str (I i) = sdec (sint i)"
| "field_str (S s) = s"

fun join_ws :: "string list \<Rightarrow> string" where
  "join_ws [] = []"
| "join_ws [x] = x"
| "join_ws (x # y # ys) = x @ wsStr @ join_ws (y # ys)"

definition bannerStr :: string where
  "bannerStr = nlStr @ ''==============================='' @ nlStr @ nlStr"

fun render_item :: "out_item \<Rightarrow> string" where
  "render_item (Line fs) = join_ws (map field_str fs) @ nlStr"
| "render_item Banner = bannerStr"

definition render :: "out_item list \<Rightarrow> string" where
  "render os = concat (map render_item os)"

subsection \<open>The pass object\<close>

record pass_state =
  lid :: size_t
  resetLID :: size_t
  sortToLIDMap :: "size_t \<rightharpoonup> size_t"
  constToLIDMap :: "(int64_t \<times> size_t) \<rightharpoonup> size_t"
  opLIDMap :: "opptr \<rightharpoonup> size_t"
  opAliasMap :: "opptr \<rightharpoonup> opptr"
  inputLIDs :: "size_t \<rightharpoonup> size_t"
  regOps :: "operation list"
  outs :: "out_item list"

definition noLID :: size_t where
  "noLID = - 1"

definition initial_state :: pass_state where
  "initial_state = \<lparr> lid = 1, resetLID = noLID, sortToLIDMap = Map.empty,
     constToLIDMap = Map.empty, opLIDMap = Map.empty, opAliasMap = Map.empty,
     inputLIDs = Map.empty, regOps = [], outs = [] \<rparr>"

definition sortStr :: string where "sortStr = ''sort''"
definition bitvecStr :: string where "bitvecStr = ''bitvecStr''"
definition inputStr :: string where "inputStr = ''input''"
definition resetStr :: string where "resetStr = ''reset''"
definition zeroStr :: string where "zeroStr = ''zero''"
definition constdStr :: string where "constdStr = ''constd''"
definition sliceStr :: string where "sliceStr = ''slice''"
definition addStr :: string where "addStr = ''add''"
definition subStr :: string where "subStr = ''sub''"
definition mulStr :: string where "mulStr = ''mul''"
definition andStr :: string where "andStr = ''and''"
definition orStr :: string where "orStr = ''or''"
definition xorStr :: string where "xorStr = ''xor''"
definition sllStr :: string where "sllStr = ''sll''"
definition srlStr :: string where "srlStr = ''srl''"
definition sraStr :: string where "sraStr = ''sra''"
definition sdivStr :: string where "sdivStr = ''sdiv''"
definition udivStr :: string where "udivStr = ''udiv''"
definition smodStr :: string where "smodStr = ''smod''"
definition concatStr :: string where "concatStr = ''concat''"
definition notStr :: string where "notStr = ''not''"
definition neqStr :: string where "neqStr = ''neq''"
definition hwNeqStr :: string where "hwNeqStr = ''ne''"
definition iteStr :: string where "iteStr = ''ite''"
definition impliesStr :: string where "impliesStr = ''implies''"
definition stateStr :: string where "stateStr = ''state''"
definition nextStr :: string where "nextStr = ''next''"
definition badStr :: string where "badStr = ''bad''"
definition constraintStr :: string where "constraintStr = ''constraint''"

text \<open>
  A member function either returns (\<open>Inr\<close>, with the state it leaves) or stops the
  process at a failed assertion (\<open>Inl\<close>, with the state at that moment, whose stream is
  what was written before). \<open>DenseMap::at\<close> returns the entry of a key and aborts when
  the key has no entry.
\<close>

type_synonym outcome = "pass_state + pass_state"

definition and_then :: "outcome \<Rightarrow> (pass_state \<Rightarrow> outcome) \<Rightarrow> outcome" where
  "and_then r f = (case r of Inl s \<Rightarrow> Inl s | Inr s \<Rightarrow> f s)"

definition DenseMap_at :: "('k \<rightharpoonup> 'v) \<Rightarrow> 'k \<Rightarrow> 'v option" where
  "DenseMap_at m k = m k"

text \<open>\<open>llvm::outs() << lid++ << wsStr << ... << nlStr\<close>: one line, one LID.\<close>

definition emit :: "field list \<Rightarrow> pass_state \<Rightarrow> pass_state" where
  "emit fs s = s\<lparr> outs := outs s @ [Line (N (lid s) # fs)], lid := lid s + 1 \<rparr>"

subsection \<open>Field helper functions\<close>

definition getOpAlias :: "pass_state \<Rightarrow> opptr \<Rightarrow> opptr" where
  "getOpAlias s op = (case opAliasMap s op of Some orig \<Rightarrow> orig | None \<Rightarrow> op)"

definition getOpLID :: "pass_state \<Rightarrow> opptr \<Rightarrow> size_t" where
  "getOpLID s op =
     (let defOp = getOpAlias s op
      in case opLIDMap s defOp of Some l \<Rightarrow> l | None \<Rightarrow> noLID)"

definition getOpLID_Value :: "pass_state \<Rightarrow> val \<Rightarrow> size_t" where
  "getOpLID_Value s v =
     (let defOp = getOpAlias s (getDefiningOp v)
      in case opLIDMap s defOp of
           Some l \<Rightarrow> l
         | None \<Rightarrow>
             (case v of
                BlockArgument argIdx \<Rightarrow>
                  (case inputLIDs s argIdx of Some l \<Rightarrow> l | None \<Rightarrow> noLID)
              | OpResult a \<Rightarrow> noLID))"

definition setOpLID :: "opptr \<Rightarrow> pass_state \<Rightarrow> pass_state" where
  "setOpLID op s = (if op \<noteq> None then s\<lparr> opLIDMap := (opLIDMap s)(op \<mapsto> lid s) \<rparr> else s)"

definition setOpAlias :: "opptr \<Rightarrow> opptr \<Rightarrow> pass_state \<Rightarrow> pass_state" where
  "setOpAlias alias op s = s\<lparr> opAliasMap := (opAliasMap s)(alias \<mapsto> op) \<rparr>"

subsection \<open>String generation helper functions\<close>

definition genSort :: "string \<Rightarrow> size_t \<Rightarrow> pass_state \<Rightarrow> outcome" where
  "genSort type width s =
     (case DenseMap_at (sortToLIDMap s) width of
        None \<Rightarrow> Inl s
      | Some l \<Rightarrow>
          if l \<noteq> noLID then Inr s
          else Inr (emit [S sortStr, S type, N width]
                 (s\<lparr> sortToLIDMap := (sortToLIDMap s)(width \<mapsto> lid s) \<rparr>)))"

text \<open>
  The common opening of the other generators: \<open>sid = sortToLIDMap.at(width);
  assert(sid != noLID)\<close>.
\<close>

definition sortLID :: "pass_state \<Rightarrow> size_t \<Rightarrow> size_t option" where
  "sortLID s width =
     (case DenseMap_at (sortToLIDMap s) width of
        None \<Rightarrow> None
      | Some sid \<Rightarrow> if sid \<noteq> noLID then Some sid else None)"

definition genInput :: "size_t \<Rightarrow> string \<Rightarrow> pass_state \<Rightarrow> outcome" where
  "genInput width name s =
     (case sortLID s width of
        None \<Rightarrow> Inl s
      | Some sid \<Rightarrow> Inr (emit [S inputStr, N sid, S name] s))"

definition genConst :: "int64_t \<Rightarrow> size_t \<Rightarrow> opptr \<Rightarrow> pass_state \<Rightarrow> outcome" where
  "genConst v width op s0 =
     (let s = setOpLID op s0
      in case sortLID s width of
           None \<Rightarrow> Inl s
         | Some sid \<Rightarrow> Inr (emit [S constdStr, N sid, I v] s))"

definition genZero :: "size_t \<Rightarrow> pass_state \<Rightarrow> outcome" where
  "genZero width s =
     (case DenseMap_at (constToLIDMap s) (0, width) of
        None \<Rightarrow> Inl s
      | Some l \<Rightarrow>
          if l \<noteq> noLID then Inr s
          else (case sortLID s width of
                  None \<Rightarrow> Inl s
                | Some sid \<Rightarrow>
                    Inr (emit [S zeroStr, N sid]
                      (s\<lparr> constToLIDMap := (constToLIDMap s)((0, width) \<mapsto> lid s) \<rparr>))))"

definition genBinOp :: "string \<Rightarrow> opptr \<Rightarrow> val \<Rightarrow> val \<Rightarrow> size_t \<Rightarrow> pass_state \<Rightarrow> outcome" where
  "genBinOp inst binop op1 op2 width s0 =
     (let s = setOpLID binop s0
      in case sortLID s width of
           None \<Rightarrow> Inl s
         | Some sid \<Rightarrow>
             (let op1LID = getOpLID_Value s op1;
                  op2LID = getOpLID_Value s op2
              in Inr (emit [S inst, N sid, N op1LID, N op2LID] s)))"

definition genSlice :: "opptr \<Rightarrow> val \<Rightarrow> size_t \<Rightarrow> int64_t \<Rightarrow> pass_state \<Rightarrow> outcome" where
  "genSlice srcop op0 lowbit width s0 =
     (let s = setOpLID srcop s0
      in case sortLID s width of
           None \<Rightarrow> Inl s
         | Some sid \<Rightarrow>
             (let op0LID = getOpLID_Value s op0
              in Inr (emit [S sliceStr, N sid, N op0LID, I (width - 1), N lowbit] s)))"

definition genUnaryOp :: "opptr \<Rightarrow> opptr \<Rightarrow> string \<Rightarrow> size_t \<Rightarrow> pass_state \<Rightarrow> outcome" where
  "genUnaryOp srcop op0 inst width s0 =
     (let s = setOpLID srcop s0
      in case sortLID s width of
           None \<Rightarrow> Inl s
         | Some sid \<Rightarrow>
             (let op0LID = getOpLID s op0
              in Inr (emit [S inst, N sid, N op0LID] s)))"

definition genUnaryOp_Value :: "opptr \<Rightarrow> val \<Rightarrow> string \<Rightarrow> size_t \<Rightarrow> pass_state \<Rightarrow> outcome" where
  "genUnaryOp_Value srcop op0 inst width s = genUnaryOp srcop (getDefiningOp op0) inst width s"

definition genBad :: "opptr \<Rightarrow> pass_state \<Rightarrow> outcome" where
  "genBad assertop s = (let assertLID = getOpLID s assertop in Inr (emit [S badStr, N assertLID] s))"

definition genConstraint :: "val \<Rightarrow> pass_state \<Rightarrow> outcome" where
  "genConstraint expr s =
     (let exprLID = getOpLID_Value s expr in Inr (emit [S constraintStr, N exprLID] s))"

definition genIte_Value :: "opptr \<Rightarrow> val \<Rightarrow> val \<Rightarrow> val \<Rightarrow> int64_t \<Rightarrow> pass_state \<Rightarrow> outcome" where
  "genIte_Value srcop cond t f width s0 =
     (let s = setOpLID srcop s0
      in case sortLID s width of
           None \<Rightarrow> Inl s
         | Some sid \<Rightarrow>
             (let condLID = getOpLID_Value s cond;
                  tLID = getOpLID_Value s t;
                  fLID = getOpLID_Value s f
              in Inr (emit [S iteStr, N sid, N condLID, N tLID, N fLID] s)))"

definition genIte :: "opptr \<Rightarrow> size_t \<Rightarrow> size_t \<Rightarrow> size_t \<Rightarrow> int64_t \<Rightarrow> pass_state \<Rightarrow> outcome" where
  "genIte srcop condLID tLID fLID width s0 =
     (let s = setOpLID srcop s0
      in case sortLID s width of
           None \<Rightarrow> Inl s
         | Some sid \<Rightarrow> Inr (emit [S iteStr, N sid, N condLID, N tLID, N fLID] s))"

definition genImplies :: "opptr \<Rightarrow> val \<Rightarrow> val \<Rightarrow> pass_state \<Rightarrow> outcome" where
  "genImplies srcop lhs rhs s0 =
     (let s = setOpLID srcop s0
      in case sortLID s 1 of
           None \<Rightarrow> Inl s
         | Some sid \<Rightarrow>
             (let lhsLID = getOpLID_Value s lhs;
                  rhsLID = getOpLID_Value s rhs
              in Inr (emit [S impliesStr, N sid, N lhsLID, N rhsLID] s)))"

definition genState :: "opptr \<Rightarrow> int64_t \<Rightarrow> string \<Rightarrow> pass_state \<Rightarrow> outcome" where
  "genState srcop width name s0 =
     (let s = setOpLID srcop s0
      in case sortLID s width of
           None \<Rightarrow> Inl s
         | Some sid \<Rightarrow> Inr (emit [S stateStr, N sid, S name] s))"

definition genNext :: "opptr \<Rightarrow> opptr \<Rightarrow> int64_t \<Rightarrow> pass_state \<Rightarrow> outcome" where
  "genNext nxt reg width s =
     (case sortLID s width of
        None \<Rightarrow> Inl s
      | Some sid \<Rightarrow>
          (let regLID = getOpLID s reg;
               nextLID = getOpLID s nxt
           in Inr (emit [S nextStr, N sid, N regLID, N nextLID] s)))"

definition requireSort :: "hwtype \<Rightarrow> pass_state \<Rightarrow> outcome" where
  "requireSort ty s =
     (let width = getBitWidth ty
      in if width = noWidth then Inl s else genSort bitvecStr width s)"

subsection \<open>Visitors\<close>

text \<open>\<open>getOperand(i)\<close> asserts that the operation has an operand \<open>i\<close>.\<close>

definition getOperand :: "operation \<Rightarrow> nat \<Rightarrow> val option" where
  "getOperand op i = (if i < length (opOperands op) then Some (opOperands op ! i) else None)"

definition addrOf :: "operation \<Rightarrow> opptr" where
  "addrOf op = Some (opAddr op)"

definition visit_PortInfo :: "PortInfo \<Rightarrow> pass_state \<Rightarrow> outcome" where
  "visit_PortInfo port s =
     (if isInput port \<and> portType port \<noteq> ClockType then
        (let iName = portName port
         in and_then (requireSort (portType port) s) (\<lambda>s1.
              let w = getBitWidth (portType port);
                  s2 = s1\<lparr> inputLIDs := (inputLIDs s1)(argNum port \<mapsto> lid s1) \<rparr>;
                  s3 = (if iName = resetStr then s2\<lparr> resetLID := lid s2 \<rparr> else s2)
              in genInput w iName s3))
      else Inr s)"

definition visit_OutputOp :: "operation \<Rightarrow> pass_state \<Rightarrow> outcome" where
  "visit_OutputOp op s = Inr s"

definition visit_ConstantOp :: "operation \<Rightarrow> int64_t \<Rightarrow> pass_state \<Rightarrow> outcome" where
  "visit_ConstantOp op v s =
     and_then (requireSort (opType op) s) (genConst v (getBitWidth (opType op)) (addrOf op))"

definition visit_WireOp :: "operation \<Rightarrow> pass_state \<Rightarrow> outcome" where
  "visit_WireOp op s =
     (case getOperand op 0 of
        None \<Rightarrow> Inl s
      | Some operand \<Rightarrow> Inr (setOpAlias (addrOf op) (getDefiningOp operand) s))"

definition visitBinOp :: "operation \<Rightarrow> string \<Rightarrow> pass_state \<Rightarrow> outcome" where
  "visitBinOp op inst s =
     and_then (requireSort (opType op) s) (\<lambda>s1.
       case getOperand op 0 of
         None \<Rightarrow> Inl s1
       | Some op1 \<Rightarrow>
           (case getOperand op 1 of
              None \<Rightarrow> Inl s1
            | Some op2 \<Rightarrow> genBinOp inst (addrOf op) op1 op2 (getBitWidth (opType op)) s1))"

definition visit_ExtractOp :: "operation \<Rightarrow> size_t \<Rightarrow> pass_state \<Rightarrow> outcome" where
  "visit_ExtractOp op lb s =
     and_then (requireSort (opType op) s) (\<lambda>s1.
       case getOperand op 0 of
         None \<Rightarrow> Inl s1
       | Some op0 \<Rightarrow> genSlice (addrOf op) op0 lb (getBitWidth (opType op)) s1)"

definition visit_ICmpOp :: "operation \<Rightarrow> ICmpPredicate \<Rightarrow> pass_state \<Rightarrow> outcome" where
  "visit_ICmpOp op p s =
     (case getOperand op 0 of
        None \<Rightarrow> Inl s
      | Some lhs \<Rightarrow>
          (case getOperand op 1 of
             None \<Rightarrow> Inl s
           | Some rhs \<Rightarrow>
               (let pred0 = stringifyICmpPredicate p;
                    pred = (if pred0 = hwNeqStr then neqStr else pred0)
                in and_then (genSort bitvecStr 1 s) (genBinOp pred (addrOf op) lhs rhs 1))))"

definition visit_MuxOp :: "operation \<Rightarrow> pass_state \<Rightarrow> outcome" where
  "visit_MuxOp op s =
     (case (getOperand op 0, getOperand op 1, getOperand op 2) of
        (Some pred, Some tval, Some fval) \<Rightarrow>
          and_then (requireSort (opType op) s)
            (genIte_Value (addrOf op) pred tval fval (getBitWidth (opType op)))
      | _ \<Rightarrow> Inl s)"

definition visit_AssertOp :: "operation \<Rightarrow> pass_state \<Rightarrow> outcome" where
  "visit_AssertOp op s =
     (case getOperand op 0 of
        None \<Rightarrow> Inl s
      | Some expr \<Rightarrow>
          and_then (genSort bitvecStr 1 s) (\<lambda>s1.
            case parentOp op of
              None \<Rightarrow> Inl s1
            | Some parent \<Rightarrow>
                and_then
                  (if opKind parent = SVIfOp then
                     (case getOperand parent 0 of
                        None \<Rightarrow> Inl s1
                      | Some en \<Rightarrow>
                          and_then (genImplies (addrOf parent) en expr s1)
                            (genUnaryOp (addrOf op) (addrOf parent) notStr 1))
                   else genUnaryOp_Value (addrOf op) expr notStr 1 s1)
                  (genBad (addrOf op))))"

definition visit_AssumeOp :: "operation \<Rightarrow> pass_state \<Rightarrow> outcome" where
  "visit_AssumeOp op s =
     (case getOperand op 0 of
        None \<Rightarrow> Inl s
      | Some expr \<Rightarrow> genConstraint expr s)"

definition visit_FirRegOp :: "operation \<Rightarrow> string \<Rightarrow> pass_state \<Rightarrow> outcome" where
  "visit_FirRegOp reg regName s =
     and_then (requireSort (opType reg) s) (\<lambda>s1.
       and_then (genState (addrOf reg) (getBitWidth (opType reg)) regName s1) (\<lambda>s2.
         Inr (s2\<lparr> regOps := regOps s2 @ [reg] \<rparr>)))"

text \<open>The type switch of the module walk; every other kind is ignored.\<close>

fun visit :: "operation \<Rightarrow> pass_state \<Rightarrow> outcome" where
  "visit op s =
     (case opKind op of
        HWOutputOp \<Rightarrow> visit_OutputOp op s
      | HWConstantOp v \<Rightarrow> visit_ConstantOp op v s
      | HWWireOp \<Rightarrow> visit_WireOp op s
      | CombAddOp \<Rightarrow> visitBinOp op addStr s
      | CombSubOp \<Rightarrow> visitBinOp op subStr s
      | CombMulOp \<Rightarrow> visitBinOp op mulStr s
      | CombDivSOp \<Rightarrow> visitBinOp op sdivStr s
      | CombDivUOp \<Rightarrow> visitBinOp op udivStr s
      | CombModSOp \<Rightarrow> visitBinOp op smodStr s
      | CombShlOp \<Rightarrow> visitBinOp op sllStr s
      | CombShrUOp \<Rightarrow> visitBinOp op srlStr s
      | CombShrSOp \<Rightarrow> visitBinOp op sraStr s
      | CombAndOp \<Rightarrow> visitBinOp op andStr s
      | CombOrOp \<Rightarrow> visitBinOp op orStr s
      | CombXorOp \<Rightarrow> visitBinOp op xorStr s
      | CombConcatOp \<Rightarrow> visitBinOp op concatStr s
      | CombExtractOp lb \<Rightarrow> visit_ExtractOp op lb s
      | CombICmpOp p \<Rightarrow> visit_ICmpOp op p s
      | CombMuxOp \<Rightarrow> visit_MuxOp op s
      | SVAssertOp \<Rightarrow> visit_AssertOp op s
      | SVAssumeOp \<Rightarrow> visit_AssumeOp op s
      | SVIfOp \<Rightarrow> Inr s
      | SeqFirRegOp regName \<Rightarrow> visit_FirRegOp op regName s
      | UnsupportedOp \<Rightarrow> Inr s)"

subsection \<open>The pass\<close>

fun visitPorts :: "PortInfo list \<Rightarrow> pass_state \<Rightarrow> outcome" where
  "visitPorts [] s = Inr s"
| "visitPorts (port # ports) s = and_then (visit_PortInfo port s) (visitPorts ports)"

fun walkOps :: "operation list \<Rightarrow> pass_state \<Rightarrow> outcome" where
  "walkOps [] s = Inr s"
| "walkOps (op # ops) s = and_then (visit op s) (walkOps ops)"

text \<open>
  One turn of the loop over \<open>regOps\<close>: the reset \<open>ite\<close> and the \<open>next\<close> arc of a
  register.
\<close>

definition regTransition :: "operation \<Rightarrow> pass_state \<Rightarrow> outcome" where
  "regTransition reg s =
     (case opKind reg of
        SeqFirRegOp regName \<Rightarrow>
          (case getOperand reg 0 of
             None \<Rightarrow> Inl s
           | Some nextVal \<Rightarrow>
               (let nxt = getDefiningOp nextVal;
                    width = getBitWidth (opType reg)
                in and_then (genSort bitvecStr width s) (\<lambda>s1.
                   and_then (genZero width s1) (\<lambda>s2.
                     let nextLID = getOpLID s2 nxt
                     in case DenseMap_at (constToLIDMap s2) (0, width) of
                          None \<Rightarrow> Inl s2
                        | Some zeroLID \<Rightarrow>
                            and_then (genIte nxt (resetLID s2) zeroLID nextLID width s2)
                              (genNext nxt (addrOf reg) width)))))
      | _ \<Rightarrow> Inr s)"

fun regLoop :: "operation list \<Rightarrow> pass_state \<Rightarrow> outcome" where
  "regLoop [] s = Inr s"
| "regLoop (reg # regs) s = and_then (regTransition reg s) (regLoop regs)"

definition runOnModule :: "hwmodule \<Rightarrow> pass_state \<Rightarrow> outcome" where
  "runOnModule m s =
     and_then (visitPorts (portList m) s) (\<lambda>s1.
       and_then (walkOps (walkOrder m) s1) (\<lambda>s2.
         and_then (regLoop (regOps s2) s2) (\<lambda>s3.
           Inr (s3\<lparr> outs := outs s3 @ [Banner] \<rparr>))))"

fun runOnModules :: "hwmodule list \<Rightarrow> pass_state \<Rightarrow> outcome" where
  "runOnModules [] s = Inr s"
| "runOnModules (m # ms) s = and_then (runOnModule m s) (runOnModules ms)"

definition runOnOperation :: "hwmodule list \<Rightarrow> outcome" where
  "runOnOperation ms = runOnModules ms initial_state"

text \<open>The state a run ends in, returned or aborted.\<close>

fun final :: "outcome \<Rightarrow> pass_state" where
  "final (Inl s) = s"
| "final (Inr s) = s"


text \<open>
  \<open>numbered l xs\<close>: the lines of \<open>xs\<close> start with the LIDs \<open>l\<close>, \<open>l + 1\<close>, ... in
  this order (banners carry none); \<open>nlines\<close> counts the lines and \<open>line_lids\<close> reads
  their leading integers.
\<close>

fun numbered :: "size_t \<Rightarrow> out_item list \<Rightarrow> bool" where
  "numbered l [] = True"
| "numbered l (Banner # xs) = numbered l xs"
| "numbered l (Line fs # xs) = (case fs of N k # rest \<Rightarrow> k = l \<and> numbered (l + 1) xs | _ \<Rightarrow> False)"

fun nlines :: "out_item list \<Rightarrow> nat" where
  "nlines [] = 0"
| "nlines (Banner # xs) = nlines xs"
| "nlines (Line fs # xs) = Suc (nlines xs)"

text \<open>
  The elementary updates of the pass object. Every member function is a sequence of
  them (\<open>steps\<close>): a sort or zero declaration, made only when the table holds the
  sentinel for its key; any other line, whose mnemonic is in \<open>A\<close>; a new binding in a
  map; a register appended to the list; the banner. Only the port phase (\<open>ports\<close>) writes \<open>inputLIDs\<close>
  and \<open>resetLID\<close>.
\<close>

inductive prim :: "bool \<Rightarrow> string set \<Rightarrow> pass_state \<Rightarrow> pass_state \<Rightarrow> bool"
  for ports :: bool and A :: "string set" where
  p_sort: "sortToLIDMap s w = Some noLID \<Longrightarrow>
     prim ports A s (emit [S sortStr, S ty, N w] (s\<lparr> sortToLIDMap := (sortToLIDMap s)(w \<mapsto> lid s) \<rparr>))"
| p_zero: "constToLIDMap s (0, w) = Some noLID \<Longrightarrow>
     prim ports A s (emit [S zeroStr, N sid] (s\<lparr> constToLIDMap := (constToLIDMap s)((0, w) \<mapsto> lid s) \<rparr>))"
| p_line: "inst \<in> A \<Longrightarrow> prim ports A s (emit (S inst # fs) s)"
| p_opLID: "prim ports A s (s\<lparr> opLIDMap := (opLIDMap s)(op \<mapsto> l) \<rparr>)"
| p_alias: "prim ports A s (s\<lparr> opAliasMap := (opAliasMap s)(alias \<mapsto> op) \<rparr>)"
| p_regs: "prim ports A s (s\<lparr> regOps := regOps s @ [r] \<rparr>)"
| p_input: "ports \<Longrightarrow> prim ports A s (s\<lparr> inputLIDs := (inputLIDs s)(i \<mapsto> l) \<rparr>)"
| p_reset: "ports \<Longrightarrow> prim ports A s (s\<lparr> resetLID := l \<rparr>)"
| p_banner: "prim ports A s (s\<lparr> outs := outs s @ [Banner] \<rparr>)"

definition steps :: "bool \<Rightarrow> string set \<Rightarrow> pass_state \<Rightarrow> pass_state \<Rightarrow> bool" where
  "steps ports A = (prim ports A)\<^sup>*\<^sup>*"

definition body_insts :: "string set" where
  "body_insts = - {sortStr, zeroStr, nextStr}"

definition all_insts :: "string set" where
  "all_insts = - {sortStr, zeroStr}"

fun line_lids :: "out_item list \<Rightarrow> size_t list" where
  "line_lids [] = []"
| "line_lids (Banner # xs) = line_lids xs"
| "line_lids (Line fs # xs) = (case fs of N k # rest \<Rightarrow> k # line_lids xs | _ \<Rightarrow> line_lids xs)"

definition grows :: "pass_state \<Rightarrow> pass_state \<Rightarrow> bool" where
  "grows s s' = (\<exists>new. outs s' = outs s @ new \<and> numbered (lid s) new
      \<and> lid s' = lid s + of_nat (nlines new))"

text \<open>A module with a clock and two assumptions over the result of an unsupported operation.\<close>

definition assume_module :: hwmodule where
  "assume_module = \<lparr> portList =
       [\<lparr> portName = ''clk'', dir = Input, portType = ClockType, argNum = 0 \<rparr>],
     walkOrder =
       [Operation 30 UnsupportedOp [] (IntegerType 1) None,
        Operation 31 SVAssumeOp [OpResult 30] (IntegerType 1) None,
        Operation 32 SVAssumeOp [OpResult 30] (IntegerType 1) None] \<rparr>"

text \<open>
  The condition LIDs of the \<open>ite\<close> lines of a stream, and the lines the loop over
  \<open>regOps\<close> writes for a module.
\<close>

definition ite_cond :: "out_item \<Rightarrow> size_t option" where
  "ite_cond x =
     (case x of
        Line [N l, S k, N sid, N c, N t, N f] \<Rightarrow> if k = iteStr then Some c else None
      | _ \<Rightarrow> None)"

primrec ite_conds :: "out_item list \<Rightarrow> size_t list" where
  "ite_conds [] = []"
| "ite_conds (x # xs) = (case ite_cond x of Some c \<Rightarrow> c # ite_conds xs | None \<Rightarrow> ite_conds xs)"




text \<open>
  Whether a run returned, the registers among a list of operations, and the number of
  \<open>next\<close> lines of a stream.
\<close>

fun returned :: "outcome \<Rightarrow> bool" where
  "returned (Inl s) = False"
| "returned (Inr s) = True"













section \<open>Lowering of LTL and Verif to Core (LTLToCore.cpp)\<close>

subsection \<open>Values, operations and the rewriter\<close>

text \<open>
  The IR the patterns read: a value is null, a block argument, or the result of an
  existing operation given with its address, kind, operands and type, so that a value
  carries the tree of its defining operations. \<open>New\<close> is the result of an operation
  the rewriter created, named by the number the rewriter gave it. A constant-like
  operation carries its value, zero-extended; a delay its \<open>delay\<close> and optional
  \<open>length\<close> attributes.
\<close>

datatype mtype = IntegerTy nat | ClockTy | PropertyTy | SequenceTy | NoneTy

datatype ClockEdge = Pos | Neg | Both

datatype EventControl = AtPosEdge | AtNegEdge | AtEdge

fun ltlToSVEventControl :: "ClockEdge \<Rightarrow> EventControl" where
  "ltlToSVEventControl Pos = AtPosEdge"
| "ltlToSVEventControl Neg = AtNegEdge"
| "ltlToSVEventControl Both = AtEdge"

datatype ltlkind =
    LTLClockOp ClockEdge | LTLDisableOp | LTLImplicationOp | LTLConcatOp
  | LTLDelayOp "64 word" "64 word option"
  | ConstantLike nat
  | OtherKind

datatype mval =
    Null
  | Arg nat mtype
  | Res nat ltlkind "mval list" mtype
  | New nat mtype

fun typeOf :: "mval \<Rightarrow> mtype" where
  "typeOf Null = NoneTy"
| "typeOf (Arg i ty) = ty"
| "typeOf (Res a k ops ty) = ty"
| "typeOf (New i ty) = ty"

definition i1 :: mtype where
  "i1 = IntegerTy 1"

text \<open>The operand \<open>i\<close> of the operation defining a value (null where there is none).\<close>

fun operandAt :: "mval \<Rightarrow> nat \<Rightarrow> mval" where
  "operandAt (Res a k ops ty) i = (if i < length ops then ops ! i else Null)"
| "operandAt v i = Null"

fun addressOf :: "mval \<Rightarrow> nat option" where
  "addressOf (Res a k ops ty) = Some a"
| "addressOf v = None"

text \<open>The operations the patterns create.\<close>

datatype DeferAssert = Immediate | Observed | Final

datatype coreop =
    hw_constant mtype "64 word"
  | comb_or mval mval
  | comb_xor mval mval
  | comb_and mval mval
  | comb_add mval mval
  | comb_icmp ICmpPredicate mval mval
  | comb_mux mval mval mval
  | seq_to_clock mval
  | seq_compreg mval mval mval mval string mval
  | backedge_placeholder mtype
  | sv_always EventControl mval "coreop list"
  | sv_assert mval DeferAssert string

fun resultType :: "coreop \<Rightarrow> mtype" where
  "resultType (hw_constant ty v) = ty"
| "resultType (comb_or a b) = typeOf a"
| "resultType (comb_xor a b) = typeOf a"
| "resultType (comb_and a b) = typeOf a"
| "resultType (comb_add a b) = typeOf a"
| "resultType (comb_icmp p a b) = IntegerTy 1"
| "resultType (comb_mux c t f) = typeOf t"
| "resultType (seq_to_clock a) = ClockTy"
| "resultType (seq_compreg inp clk rst rv name init) = typeOf inp"
| "resultType (backedge_placeholder ty) = ty"
| "resultType (sv_always e clk body) = NoneTy"
| "resultType (sv_assert c d l) = NoneTy"

text \<open>
  The rewriter: the operations created so far, each with the number of its result, in
  the order of their creation; the existing operations replaced (with the value that
  replaces their result, if any) and erased.
\<close>

record rewriter =
  created :: "(nat \<times> coreop) list"
  nextId :: nat
  replacedOps :: "(nat \<times> mval) list"
  erasedOps :: "nat list"

definition create :: "coreop \<Rightarrow> rewriter \<Rightarrow> mval \<times> rewriter" where
  "create op rw =
     (New (nextId rw) (resultType op),
      rw\<lparr> created := created rw @ [(nextId rw, op)], nextId := Suc (nextId rw) \<rparr>)"

definition replaceOp :: "mval \<Rightarrow> mval \<Rightarrow> rewriter \<Rightarrow> rewriter" where
  "replaceOp op v rw =
     (case addressOf op of
        Some a \<Rightarrow> rw\<lparr> replacedOps := replacedOps rw @ [(a, v)] \<rparr>
      | None \<Rightarrow> rw)"

definition replaceOpWithNewOp :: "mval \<Rightarrow> coreop \<Rightarrow> rewriter \<Rightarrow> mval \<times> rewriter" where
  "replaceOpWithNewOp op new rw = (let (v, rw1) = create new rw in (v, replaceOp op v rw1))"

definition eraseOp :: "mval \<Rightarrow> rewriter \<Rightarrow> rewriter" where
  "eraseOp op rw =
     (case addressOf op of
        Some a \<Rightarrow> rw\<lparr> erasedOps := erasedOps rw @ [a] \<rparr>
      | None \<Rightarrow> rw)"

text \<open>
  \<open>createOrFold<seq::ToClockOp>\<close>: the folder of \<open>seq.to_clock\<close> is not part of the
  sources at hand and is a parameter: \<open>folder v = Some c\<close> when the operation over \<open>v\<close>
  folds to the existing value \<open>c\<close>, and then nothing is created.
\<close>

definition createOrFold_ToClockOp ::
    "(mval \<Rightarrow> mval option) \<Rightarrow> mval \<Rightarrow> rewriter \<Rightarrow> mval \<times> rewriter" where
  "createOrFold_ToClockOp folder v rw =
     (case folder v of Some c \<Rightarrow> (c, rw) | None \<Rightarrow> create (seq_to_clock v) rw)"

text \<open>
  Modelled from the spec: the back-edge builder (\<open>circt/Support/BackedgeBuilder.h\<close>) is
  not under src/. A back-edge is a placeholder value of the requested type; setting it
  replaces every use of the placeholder with the value, and from then on the back-edge
  stands for that value; when the builder's scope ends the placeholder is consumed.
\<close>

datatype backedge = Backedge (placeholderId: nat) (backedgeValue: mval)

definition backedge_get :: "mtype \<Rightarrow> rewriter \<Rightarrow> backedge \<times> rewriter" where
  "backedge_get ty rw =
     (let (v, rw1) = create (backedge_placeholder ty) rw in (Backedge (nextId rw) v, rw1))"

definition substVal :: "mval \<Rightarrow> mval \<Rightarrow> mval \<Rightarrow> mval" where
  "substVal old new v = (if v = old then new else v)"

fun substOp :: "mval \<Rightarrow> mval \<Rightarrow> coreop \<Rightarrow> coreop" where
  "substOp old new (hw_constant ty v) = hw_constant ty v"
| "substOp old new (comb_or a b) = comb_or (substVal old new a) (substVal old new b)"
| "substOp old new (comb_xor a b) = comb_xor (substVal old new a) (substVal old new b)"
| "substOp old new (comb_and a b) = comb_and (substVal old new a) (substVal old new b)"
| "substOp old new (comb_add a b) = comb_add (substVal old new a) (substVal old new b)"
| "substOp old new (comb_icmp p a b) = comb_icmp p (substVal old new a) (substVal old new b)"
| "substOp old new (comb_mux c t f) =
     comb_mux (substVal old new c) (substVal old new t) (substVal old new f)"
| "substOp old new (seq_to_clock a) = seq_to_clock (substVal old new a)"
| "substOp old new (seq_compreg inp clk rst rv name init) =
     seq_compreg (substVal old new inp) (substVal old new clk) (substVal old new rst)
       (substVal old new rv) name (substVal old new init)"
| "substOp old new (backedge_placeholder ty) = backedge_placeholder ty"
| "substOp old new (sv_always e clk body) =
     sv_always e (substVal old new clk) (map (substOp old new) body)"
| "substOp old new (sv_assert c d l) = sv_assert (substVal old new c) d l"

definition backedge_setValue :: "backedge \<Rightarrow> mval \<Rightarrow> rewriter \<Rightarrow> backedge \<times> rewriter" where
  "backedge_setValue be v rw =
     (Backedge (placeholderId be) v,
      rw\<lparr> created := map (\<lambda>(i, op). (i, substOp (backedgeValue be) v op)) (created rw) \<rparr>)"

definition backedge_consume :: "backedge \<Rightarrow> rewriter \<Rightarrow> rewriter" where
  "backedge_consume be rw =
     rw\<lparr> created := filter (\<lambda>(i, op). i \<noteq> placeholderId be) (created rw) \<rparr>"

subsection \<open>Pattern matchers\<close>

text \<open>
  The slots a match binds: the operations and values declared at the head of
  \<open>AssertOpConversionPattern::matchAndRewrite\<close>, null until bound.
\<close>

record bindings =
  ltlClock :: mval
  disableCond :: mval
  disableInput :: mval
  antecedent :: mval
  consequent :: mval
  clockOp :: mval
  delayOp :: mval
  disableOp :: mval
  implOp :: mval
  concatOp :: mval

definition unbound :: bindings where
  "unbound = \<lparr> ltlClock = Null, disableCond = Null, disableInput = Null, antecedent = Null,
     consequent = Null, clockOp = Null, delayOp = Null, disableOp = Null, implOp = Null,
     concatOp = Null \<rparr>"

type_synonym matcher = "mval \<Rightarrow> bindings \<Rightarrow> bool \<times> bindings"

text \<open>\<open>I1ValueMatcher\<close>: any value of type \<open>i1\<close>, recorded in its slot.\<close>

definition m_Bool :: "(mval \<Rightarrow> bindings \<Rightarrow> bindings) \<Rightarrow> matcher" where
  "m_Bool what v b = (if typeOf v = IntegerTy 1 then (True, what v b) else (False, b))"

text \<open>
  \<open>m_One\<close> (MLIR): the value is the result of a constant-like operation whose value
  is 1.
\<close>

definition m_One :: matcher where
  "m_One v b = (case v of Res a (ConstantLike c) ops ty \<Rightarrow> (c = 1, b) | _ \<Rightarrow> (False, b))"

text \<open>
  \<open>RecursivePatternMatcher::match\<close> (MLIR) runs the matcher of every operand, in
  order, and conjoins the results; \<open>BindingRecursivePatternMatcher\<close> adds the binding
  of the operation when all of this succeeded. The slots the operand matchers bound on
  the way stay bound when the match fails.
\<close>

fun matchOperands :: "matcher list \<Rightarrow> mval list \<Rightarrow> bindings \<Rightarrow> bool \<times> bindings" where
  "matchOperands (m # ms) (v # vs) b =
     (let (r1, b1) = m v b; (r2, b2) = matchOperands ms vs b1 in (r1 \<and> r2, b2))"
| "matchOperands [] [] b = (True, b)"
| "matchOperands ms vs b = (False, b)"

definition m_OpWithBind ::
    "(ltlkind \<Rightarrow> bool) \<Rightarrow> (mval \<Rightarrow> bindings \<Rightarrow> bindings) \<Rightarrow> matcher list \<Rightarrow> matcher" where
  "m_OpWithBind isa opBind matchers v b =
     (case v of
        Res a k ops ty \<Rightarrow>
          if \<not> isa k \<or> length ops \<noteq> length matchers then (False, b)
          else (let (res, b1) = matchOperands matchers ops b
                in if res then (True, opBind v b1) else (False, b1))
      | _ \<Rightarrow> (False, b))"

fun isClockOp :: "ltlkind \<Rightarrow> bool" where
  "isClockOp (LTLClockOp e) = True"
| "isClockOp k = False"

fun isDelayOp :: "ltlkind \<Rightarrow> bool" where
  "isDelayOp (LTLDelayOp d l) = True"
| "isDelayOp k = False"

definition matchNOI :: matcher where
  "matchNOI =
     m_OpWithBind isClockOp (\<lambda>v b. b\<lparr> clockOp := v \<rparr>)
       [m_OpWithBind (\<lambda>k. k = LTLDisableOp) (\<lambda>v b. b\<lparr> disableOp := v \<rparr>)
          [m_OpWithBind (\<lambda>k. k = LTLImplicationOp) (\<lambda>v b. b\<lparr> implOp := v \<rparr>)
             [m_OpWithBind (\<lambda>k. k = LTLConcatOp) (\<lambda>v b. b\<lparr> concatOp := v \<rparr>)
                [m_Bool (\<lambda>v b. b\<lparr> antecedent := v \<rparr>),
                 m_OpWithBind isDelayOp (\<lambda>v b. b\<lparr> delayOp := v \<rparr>) [m_One]],
              m_Bool (\<lambda>v b. b\<lparr> consequent := v \<rparr>)],
           m_Bool (\<lambda>v b. b\<lparr> disableCond := v \<rparr>)],
        m_Bool (\<lambda>v b. b\<lparr> ltlClock := v \<rparr>)]"

definition matchOI :: matcher where
  "matchOI =
     m_OpWithBind isClockOp (\<lambda>v b. b\<lparr> clockOp := v \<rparr>)
       [m_OpWithBind (\<lambda>k. k = LTLDisableOp) (\<lambda>v b. b\<lparr> disableOp := v \<rparr>)
          [m_OpWithBind (\<lambda>k. k = LTLImplicationOp) (\<lambda>v b. b\<lparr> implOp := v \<rparr>)
             [m_Bool (\<lambda>v b. b\<lparr> antecedent := v \<rparr>),
              m_Bool (\<lambda>v b. b\<lparr> consequent := v \<rparr>)],
           m_Bool (\<lambda>v b. b\<lparr> disableCond := v \<rparr>)],
        m_Bool (\<lambda>v b. b\<lparr> ltlClock := v \<rparr>)]"

definition matchAssertProperty :: matcher where
  "matchAssertProperty =
     m_OpWithBind isClockOp (\<lambda>v b. b\<lparr> clockOp := v \<rparr>)
       [m_OpWithBind (\<lambda>k. k = LTLDisableOp) (\<lambda>v b. b\<lparr> disableOp := v \<rparr>)
          [m_Bool (\<lambda>v b. b\<lparr> disableInput := v \<rparr>),
           m_Bool (\<lambda>v b. b\<lparr> disableCond := v \<rparr>)],
        m_Bool (\<lambda>v b. b\<lparr> ltlClock := v \<rparr>)]"

text \<open>Attributes of the bound operations.\<close>

fun getDelay :: "mval \<Rightarrow> 64 word" where
  "getDelay (Res a (LTLDelayOp d l) ops ty) = d"
| "getDelay v = 0"

fun getLength :: "mval \<Rightarrow> 64 word option" where
  "getLength (Res a (LTLDelayOp d l) ops ty) = l"
| "getLength v = None"

fun getEdge :: "mval \<Rightarrow> ClockEdge" where
  "getEdge (Res a (LTLClockOp e) ops ty) = e"
| "getEdge v = Pos"

subsection \<open>Conversion patterns\<close>

datatype LogicalResult = success | failure string

text \<open>
  \<open>HasBeenResetOpConversion::matchAndRewrite\<close>, on the operation \<open>op\<close> with the
  adaptor's clock and reset.
\<close>

definition HasBeenResetOpConversion ::
    "(mval \<Rightarrow> mval option) \<Rightarrow> mval \<Rightarrow> mval \<Rightarrow> mval \<Rightarrow> rewriter \<Rightarrow> LogicalResult \<times> rewriter" where
  "HasBeenResetOpConversion folder op clock reset rw =
     (let (constZero, rw1) = create (hw_constant i1 0) rw;
          (constOne, rw2) = create (hw_constant i1 1) rw1;
          (reg, rw3) = backedge_get i1 rw2;
          (orReset, rw4) = create (comb_or reset (backedgeValue reg)) rw3;
          (clk, rw5) = createOrFold_ToClockOp folder clock rw4;
          (r, rw6) = create (seq_compreg orReset clk Null Null ''hbr'' constZero) rw5;
          (reg1, rw7) = backedge_setValue reg r rw6;
          (notReset, rw8) = create (comb_xor reset constOne) rw7;
          (res, rw9) = replaceOpWithNewOp op (comb_and (backedgeValue reg1) notReset) rw8
      in (success, backedge_consume reg1 rw9))"

definition visit_DisableOp :: "mval \<Rightarrow> mval \<Rightarrow> rewriter \<Rightarrow> mval \<times> rewriter" where
  "visit_DisableOp op operand rw =
     replaceOpWithNewOp op
       (comb_or (operandAt op 1) (if operand \<noteq> Null then operand else operandAt op 0)) rw"

definition makeImplication :: "mval \<Rightarrow> mval \<Rightarrow> rewriter \<Rightarrow> mval \<times> rewriter" where
  "makeImplication ante cons rw =
     (let (constOne, rw1) = create (hw_constant i1 1) rw;
          (nA, rw2) = create (comb_xor ante constOne) rw1
      in create (comb_or nA cons) rw2)"

text \<open>
  \<open>llvm::Log2_64(v) = 63 - countl_zero(v)\<close>, an \<open>unsigned\<close> (32 bits);
  \<open>countl_zero\<close> counts the zero bits above the highest one bit, 64 for 0.
\<close>

function log2floor :: "nat \<Rightarrow> nat" where
  "log2floor n = (if n < 2 then 0 else Suc (log2floor (n div 2)))"
  by pat_completeness auto
termination
  by (relation "measure id") auto

declare log2floor.simps [simp del]

definition countl_zero :: "64 word \<Rightarrow> nat" where
  "countl_zero v = (if v = 0 then 64 else 63 - log2floor (unat v))"

definition Log2_64 :: "64 word \<Rightarrow> 32 word" where
  "Log2_64 v = 63 - of_nat (countl_zero v)"

text \<open>
  \<open>hw::getBitWidth\<close> of a type that is not an integer: \<open>-1\<close> for the types at hand.
  It is read only for an antecedent that is not an integer, which \<open>m_Bool\<close> never binds.
\<close>

fun typeBitWidth :: "mtype \<Rightarrow> 64 word" where
  "typeBitWidth (IntegerTy w) = of_nat w"
| "typeBitWidth ty = - 1"

text \<open>
  The loop \<open>for (size_t i = 1; i < delayCycles; ++i)\<close> over the pipeline; the name of
  a stage is \<open>"antecedent_" + std::to_string(i)\<close>.
\<close>

definition antecedentName :: "nat \<Rightarrow> string" where
  "antecedentName i = ''antecedent_'' @ dec i"

function pipelineLoop ::
    "nat \<Rightarrow> nat \<Rightarrow> mval \<Rightarrow> mval \<Rightarrow> mval \<Rightarrow> mval \<Rightarrow> rewriter \<Rightarrow> mval \<times> rewriter" where
  "pipelineLoop i delayCycles aI clock disableCnd resetVal rw =
     (if i < delayCycles then
        (let (aI1, rw1) = create (seq_compreg aI clock disableCnd resetVal
                                   (antecedentName i) resetVal) rw
         in pipelineLoop (Suc i) delayCycles aI1 clock disableCnd resetVal rw1)
      else (aI, rw))"
  by pat_completeness auto
termination
  by (relation "measure (\<lambda>(i, n, r). n - i)") auto

declare pipelineLoop.simps [simp del]

text \<open>
  \<open>makeNonOverlappingImplication\<close>, in the three parts its comments mark: the delay
  register with its saturating increment; the pipeline of antecedent registers; the
  final condition. The back-edge of the delay register is consumed when the function
  returns.
\<close>

definition makeDelayRegister ::
    "(mval \<Rightarrow> mval option) \<Rightarrow> mval \<Rightarrow> mval \<Rightarrow> mval \<Rightarrow> rewriter
      \<Rightarrow> backedge \<times> mval \<times> mval \<times> rewriter" where
  "makeDelayRegister folder delayN ltlclock disableCnd rw =
     (let delayCycles = getDelay delayN;
          delayRegW = (ucast (Log2_64 delayCycles + 1) :: 64 word);
          idrw = IntegerTy (unat delayRegW);
          (constZero, rw1) = create (hw_constant idrw 0) rw;
          (constOneW, rw2) = create (hw_constant idrw 1) rw1;
          (delayReg, rw3) = backedge_get idrw rw2;
          (delayInc, rw4) = create (comb_add (backedgeValue delayReg) constOneW) rw3;
          (delayMax, rw5) = create (hw_constant idrw delayCycles) rw4;
          (delayEqMax, rw6) = create (comb_icmp eq (backedgeValue delayReg) delayMax) rw5;
          (delayMux, rw7) = create (comb_mux delayEqMax delayMax delayInc) rw6;
          (clock, rw8) = createOrFold_ToClockOp folder (operandAt ltlclock 1) rw7;
          (r, rw9) = create (seq_compreg delayMux clock disableCnd constZero ''delay_''
                       constZero) rw8;
          (delayReg1, rw10) = backedge_setValue delayReg r rw9
      in (delayReg1, delayMax, clock, rw10))"

definition makeAntecedentPipeline ::
    "mval \<Rightarrow> 64 word \<Rightarrow> mval \<Rightarrow> mval \<Rightarrow> rewriter \<Rightarrow> mval \<times> rewriter" where
  "makeAntecedentPipeline ante delayCycles clock disableCnd rw10 =
     (let aType = typeOf ante;
          itype = (case aType of
                     IntegerTy w \<Rightarrow> aType
                   | _ \<Rightarrow> IntegerTy (nat (sint (typeBitWidth aType))));
          (resetVal, rw11) = create (hw_constant itype 0) rw10;
          (a0, rw12) = create (seq_compreg ante clock disableCnd resetVal ''antecedent_0''
                         resetVal) rw11
      in pipelineLoop 1 (unat delayCycles) a0 clock disableCnd resetVal rw12)"

definition makeAssertionCondition ::
    "mval \<Rightarrow> mval \<Rightarrow> mval \<Rightarrow> mval \<Rightarrow> mval \<Rightarrow> rewriter \<Rightarrow> mval \<times> rewriter" where
  "makeAssertionCondition delayReg delayMax aI cons disableCnd rw13 =
     (let (condMin, rw14) = create (comb_icmp ult delayReg delayMax) rw13;
          (constOneAi, rw15) = create (hw_constant (typeOf aI) 1) rw14;
          (notAi, rw16) = create (comb_xor aI constOneAi) rw15;
          (implAiConsequent, rw17) = create (comb_or notAi cons) rw16;
          (condLhs, rw18) = create (comb_or condMin implAiConsequent) rw17
      in create (comb_or condLhs disableCnd) rw18)"

definition makeNonOverlappingImplication ::
    "(mval \<Rightarrow> mval option) \<Rightarrow> mval \<Rightarrow> mval \<Rightarrow> mval \<Rightarrow> mval \<Rightarrow> mval \<Rightarrow> rewriter
      \<Rightarrow> bool \<times> mval \<times> rewriter" where
  "makeNonOverlappingImplication folder ante cons delayN ltlclock disableCnd rw =
     (let (delayReg1, delayMax, clock, rw10) =
            makeDelayRegister folder delayN ltlclock disableCnd rw;
          (aI, rw13) = makeAntecedentPipeline ante (getDelay delayN) clock disableCnd rw10;
          (res, rw19) = makeAssertionCondition (backedgeValue delayReg1) delayMax aI cons
                          disableCnd rw13
      in (True, res, backedge_consume delayReg1 rw19))"

text \<open>
  \<open>AssertOpConversionPattern::matchAndRewrite\<close> on the assertion \<open>op\<close> over
  \<open>property\<close>, with its label, in three parts: the match of the non-overlapping shape
  and the check of the delay's length; \<open>buildDisableInput\<close>, the branches that settle
  the shape and build the value under the disable (or fail); \<open>emitAssertion\<close>, the
  statements after them.
\<close>

definition buildDisableInput ::
    "(mval \<Rightarrow> mval option) \<Rightarrow> mval \<Rightarrow> bool \<Rightarrow> bindings \<Rightarrow> rewriter
      \<Rightarrow> (LogicalResult \<times> rewriter) + (bindings \<times> rewriter)" where
  "buildDisableInput folder property matchedNOI b1 rw =
     (if matchedNOI then
        (let (ok, res, rw1) =
               makeNonOverlappingImplication folder (antecedent b1) (consequent b1)
                 (delayOp b1) (clockOp b1) (disableCond b1) rw
         in if \<not> ok
            then Inl (failure ''Failed to generate NOI from ltl::ImplicationOp'', rw1)
            else Inr (b1\<lparr> disableInput := res \<rparr>, rw1))
      else
        (let (matchedOI, b2) = matchOI property b1
         in if matchedOI then
              (let (v, rw1) = makeImplication (antecedent b2) (consequent b2) rw
               in Inr (b2\<lparr> disableInput := v \<rparr>, rw1))
            else
              (let (matched, b3) = matchAssertProperty property b2
               in if \<not> matched
                  then Inl (failure ''AssertProperty format is invalid!'', rw)
                  else Inr (b3, rw))))"

definition emitAssertion ::
    "mval \<Rightarrow> string \<Rightarrow> bindings \<Rightarrow> rewriter \<Rightarrow> LogicalResult \<times> rewriter" where
  "emitAssertion op label b rw1 =
     (if disableOp b = Null then (failure '' Assertion must be disabled!'', rw1)
      else if clockOp b = Null
      then (failure ''verif.assert property is not associated to a clock! '', rw1)
      else
        (let (disableVal, rw2) = visit_DisableOp (disableOp b) (disableInput b) rw1;
             (al, rw3) = create (sv_always (ltlToSVEventControl (getEdge (clockOp b)))
                           (ltlClock b) [sv_assert disableVal Immediate label]) rw2;
             rw4 = replaceOp op Null rw3;
             rw5 = eraseOp (clockOp b) rw4;
             rw6 = (if implOp b \<noteq> Null then eraseOp (implOp b) rw5 else rw5);
             rw7 = (if concatOp b \<noteq> Null then eraseOp (concatOp b) rw6 else rw6);
             rw8 = (if delayOp b \<noteq> Null then eraseOp (delayOp b) rw7 else rw7)
         in (success, rw8)))"

definition matchAndRewrite ::
    "(mval \<Rightarrow> mval option) \<Rightarrow> mval \<Rightarrow> mval \<Rightarrow> string \<Rightarrow> rewriter \<Rightarrow> LogicalResult \<times> rewriter" where
  "matchAndRewrite folder op property label rw =
     (let (matchedNOI, b1) = matchNOI property unbound
      in if matchedNOI \<and> getLength (delayOp b1) \<noteq> Some 0
         then (failure '' Delay must have a length of 0!'', rw)
         else (case buildDisableInput folder property matchedNOI b1 rw of
                 Inl f \<Rightarrow> f
               | Inr (b, rw1) \<Rightarrow> emitAssertion op label b rw1))"

text \<open>
  Concrete inputs: 1-bit values \<open>a\<close>, \<open>b\<close>, \<open>d\<close>, \<open>clk\<close>; the overlapping implication
  \<open>clock(disable(implication(a, b), d), clk)\<close>; the non-overlapping one with delay \<open>n\<close>
  and length \<open>len\<close>; an empty rewriter; a \<open>seq.to_clock\<close> that never folds.
\<close>

definition val_a :: mval where "val_a = Arg 0 (IntegerTy 1)"
definition val_b :: mval where "val_b = Arg 1 (IntegerTy 1)"
definition val_d :: mval where "val_d = Arg 2 (IntegerTy 1)"
definition val_clk :: mval where "val_clk = Arg 3 (IntegerTy 1)"

definition oi_property :: mval where
  "oi_property =
     Res 103 (LTLClockOp Pos)
       [Res 102 LTLDisableOp [Res 101 LTLImplicationOp [val_a, val_b] PropertyTy, val_d]
          PropertyTy,
        val_clk] PropertyTy"

definition noi_property :: "64 word \<Rightarrow> 64 word option \<Rightarrow> mval" where
  "noi_property n len =
     Res 115 (LTLClockOp Pos)
       [Res 114 LTLDisableOp
          [Res 113 LTLImplicationOp
             [Res 112 LTLConcatOp
                [val_a,
                 Res 111 (LTLDelayOp n len) [Res 110 (ConstantLike 1) [] (IntegerTy 1)]
                   SequenceTy] SequenceTy,
              val_b] PropertyTy,
           val_d] PropertyTy,
        val_clk] PropertyTy"

definition assert_op :: "mval \<Rightarrow> mval" where
  "assert_op property = Res 120 OtherKind [property] NoneTy"

definition empty_rewriter :: rewriter where
  "empty_rewriter = \<lparr> created = [], nextId = 0, replacedOps = [], erasedOps = [] \<rparr>"

definition no_fold :: "mval \<Rightarrow> mval option" where
  "no_fold v = None"

text \<open>A matcher whose verdict does not depend on the slots bound before.\<close>

definition steady :: "matcher \<Rightarrow> bool" where
  "steady m = (\<forall>v b b'. fst (m v b) = fst (m v b'))"



text \<open>
  A value that is not the result of an operation the rewriter creates from number
  \<open>k\<close> on.
\<close>

definition older :: "nat \<Rightarrow> mval \<Rightarrow> bool" where
  "older k v = (case v of New j ty \<Rightarrow> j < k | _ \<Rightarrow> True)"

text \<open>The registers among the created operations.\<close>

fun isReg :: "coreop \<Rightarrow> bool" where
  "isReg (seq_compreg inp clk rst rv name init) = True"
| "isReg op = False"

text \<open>
  The values an operation reads, and a rewriter in which every created operation is
  numbered below the next number and reads only values that exist already (no result
  of an operation still to be created), as in any IR the rewriter is handed.
\<close>

fun operandsOf :: "coreop \<Rightarrow> mval list" where
  "operandsOf (hw_constant ty v) = []"
| "operandsOf (comb_or a b) = [a, b]"
| "operandsOf (comb_xor a b) = [a, b]"
| "operandsOf (comb_and a b) = [a, b]"
| "operandsOf (comb_add a b) = [a, b]"
| "operandsOf (comb_icmp p a b) = [a, b]"
| "operandsOf (comb_mux c t f) = [c, t, f]"
| "operandsOf (seq_to_clock a) = [a]"
| "operandsOf (seq_compreg inp clk rst rv name init) = [inp, clk, rst, rv, init]"
| "operandsOf (backedge_placeholder ty) = []"
| "operandsOf (sv_always e clk body) = clk # concat (map operandsOf body)"
| "operandsOf (sv_assert c d l) = [c]"

definition wellFormed :: "rewriter \<Rightarrow> bool" where
  "wellFormed rw =
     list_all (\<lambda>(i, op). i < nextId rw \<and> list_all (older (nextId rw)) (operandsOf op))
       (created rw)"

subsection \<open>Cycle semantics of the created operations\<close>

text \<open>
  Modelled from the spec: the HW, Comb and Seq dialects are not under src/. A list of
  created operations is read as a synchronous circuit on values of up to 64 bits,
  truncated to the width of their type. A value that no operation of the list defines
  is an input, read from the valuation of the cycle. A register (\<open>seq.compreg\<close>)
  shows its state during the cycle; at the clock edge it takes its reset value if it
  has a reset and the reset is high, its input otherwise; its state in the first cycle
  is its power-on constant. The combinational operations are evaluated in creation
  order, from the states of the registers.
\<close>

fun bitsOf :: "mtype \<Rightarrow> nat" where
  "bitsOf (IntegerTy w) = w"
| "bitsOf ClockTy = 1"
| "bitsOf ty = 0"

type_synonym valuation = "mval \<Rightarrow> 64 word"

type_synonym env = "nat \<Rightarrow> 64 word option"

type_synonym circuit = "(nat \<times> coreop) list"

fun valueOf :: "circuit \<Rightarrow> valuation \<Rightarrow> env \<Rightarrow> mval \<Rightarrow> 64 word option" where
  "valueOf c ext env Null = None"
| "valueOf c ext env (New i ty) =
     (if i \<in> set (map fst c) then env i else Some (take_bit (bitsOf ty) (ext (New i ty))))"
| "valueOf c ext env v = Some (take_bit (bitsOf (typeOf v)) (ext v))"

definition signedOf :: "nat \<Rightarrow> 64 word \<Rightarrow> int" where
  "signedOf w x = (if 0 < w \<and> bit x (w - 1) then uint x - 2 ^ w else uint x)"

fun compare :: "ICmpPredicate \<Rightarrow> nat \<Rightarrow> 64 word \<Rightarrow> 64 word \<Rightarrow> bool" where
  "compare eq w x y = (x = y)"
| "compare ne w x y = (x \<noteq> y)"
| "compare slt w x y = (signedOf w x < signedOf w y)"
| "compare sle w x y = (signedOf w x \<le> signedOf w y)"
| "compare sgt w x y = (signedOf w x > signedOf w y)"
| "compare sge w x y = (signedOf w x \<ge> signedOf w y)"
| "compare ult w x y = (x < y)"
| "compare ule w x y = (x \<le> y)"
| "compare ugt w x y = (x > y)"
| "compare uge w x y = (x \<ge> y)"
| "compare ceq w x y = (x = y)"
| "compare cne w x y = (x \<noteq> y)"
| "compare weq w x y = (x = y)"
| "compare wne w x y = (x \<noteq> y)"

fun bin :: "(64 word \<Rightarrow> 64 word \<Rightarrow> 64 word) \<Rightarrow> 64 word option \<Rightarrow> 64 word option
    \<Rightarrow> 64 word option" where
  "bin f (Some x) (Some y) = Some (f x y)"
| "bin f x y = None"

fun evalOp :: "circuit \<Rightarrow> valuation \<Rightarrow> env \<Rightarrow> coreop \<Rightarrow> 64 word option" where
  "evalOp c ext env (hw_constant ty v) = Some (take_bit (bitsOf ty) v)"
| "evalOp c ext env (comb_or a b) = bin (OR) (valueOf c ext env a) (valueOf c ext env b)"
| "evalOp c ext env (comb_xor a b) = bin (XOR) (valueOf c ext env a) (valueOf c ext env b)"
| "evalOp c ext env (comb_and a b) = bin (AND) (valueOf c ext env a) (valueOf c ext env b)"
| "evalOp c ext env (comb_add a b) =
     bin (\<lambda>x y. take_bit (bitsOf (typeOf a)) (x + y)) (valueOf c ext env a)
       (valueOf c ext env b)"
| "evalOp c ext env (comb_icmp p a b) =
     bin (\<lambda>x y. if compare p (bitsOf (typeOf a)) x y then 1 else 0)
       (valueOf c ext env a) (valueOf c ext env b)"
| "evalOp c ext env (comb_mux s t f) =
     (case valueOf c ext env s of
        None \<Rightarrow> None
      | Some x \<Rightarrow> if x \<noteq> 0 then valueOf c ext env t else valueOf c ext env f)"
| "evalOp c ext env (seq_to_clock a) = valueOf c ext env a"
| "evalOp c ext env op = None"

text \<open>The values of one cycle, from the states of the registers.\<close>

fun evalOps :: "circuit \<Rightarrow> valuation \<Rightarrow> circuit \<Rightarrow> env \<Rightarrow> env" where
  "evalOps c ext [] env = env"
| "evalOps c ext ((i, op) # ops) env =
     evalOps c ext ops (if isReg op then env else env(i := evalOp c ext env op))"

definition cycle :: "circuit \<Rightarrow> valuation \<Rightarrow> env \<Rightarrow> env" where
  "cycle c ext regs = evalOps c ext c regs"

fun nextReg :: "circuit \<Rightarrow> valuation \<Rightarrow> env \<Rightarrow> coreop \<Rightarrow> 64 word option" where
  "nextReg c ext env (seq_compreg inp clk rst rv name init) =
     (if rst = Null then valueOf c ext env inp
      else (case valueOf c ext env rst of
              None \<Rightarrow> None
            | Some r \<Rightarrow> if r \<noteq> 0 then valueOf c ext env rv else valueOf c ext env inp))"
| "nextReg c ext env op = None"

text \<open>The states of the registers after the clock edge that ends a cycle.\<close>

definition tick :: "circuit \<Rightarrow> valuation \<Rightarrow> env \<Rightarrow> env" where
  "tick c ext env =
     fold (\<lambda>(i, op) m. if isReg op then m(i := nextReg c ext env op) else m) c (\<lambda>i. None)"

fun initialOf :: "circuit \<Rightarrow> coreop \<Rightarrow> 64 word option" where
  "initialOf c (seq_compreg inp clk rst rv name (New j ty)) =
     (case map_of c j of
        Some (hw_constant cty v) \<Rightarrow> Some (take_bit (bitsOf cty) v)
      | _ \<Rightarrow> None)"
| "initialOf c op = None"

definition powerOn :: "circuit \<Rightarrow> env" where
  "powerOn c = fold (\<lambda>(i, op) m. if isReg op then m(i := initialOf c op) else m) c (\<lambda>i. None)"

fun run :: "circuit \<Rightarrow> env \<Rightarrow> valuation list \<Rightarrow> env list" where
  "run c regs [] = []"
| "run c regs (ext # exts) =
     (let env = cycle c ext regs in env # run c (tick c ext env) exts)"

definition simulate :: "circuit \<Rightarrow> valuation list \<Rightarrow> env list" where
  "simulate c exts = run c (powerOn c) exts"

text \<open>
  The trace of \<open>has_been_reset\<close> in the specification's words: the output of a
  cycle is \<open>reg AND (NOT reset)\<close>, and the register, 0 at first, takes
  \<open>reset OR reg\<close> at each clock edge.
\<close>

fun hbr_trace :: "bool \<Rightarrow> bool list \<Rightarrow> bool list" where
  "hbr_trace reg [] = []"
| "hbr_trace reg (reset # resets) = (reg \<and> \<not> reset) # hbr_trace (reset \<or> reg) resets"

text \<open>
  The operation \<open>verif.has_been_reset clk, reset\<close>, and the valuations of a trace of
  resets.
\<close>

definition val_reset :: mval where "val_reset = Arg 4 (IntegerTy 1)"

definition hbr_op :: mval where
  "hbr_op = Res 130 OtherKind [val_clk, val_reset] (IntegerTy 1)"

definition reset_trace :: "bool list \<Rightarrow> valuation list" where
  "reset_trace bs = map (\<lambda>b v. if v = val_reset then of_bool b else 0) bs"

(*DEFS-END*)

section \<open>Properties of the BTOR2 emission\<close>

subsection \<open>Evaluation helpers\<close>

lemma dec_small: "n < 10 \<Longrightarrow> dec n = [digit n]"
  by (simp add: dec.simps)

lemma dec_large: "\<not> n < 10 \<Longrightarrow> dec n = dec (n div 10) @ [digit (n mod 10)]"
  by (subst dec.simps) simp

lemma unat_noLID: "unat noLID = 18446744073709551615"
  by (simp add: noLID_def unsigned_minus_1_eq_mask mask_eq_exp_minus_1)

lemmas render_simps = render_def wsStr_def nlStr_def bannerStr_def dec_small dec_large
  digit_def unat_noLID

lemmas str_defs = sortStr_def bitvecStr_def inputStr_def resetStr_def zeroStr_def
  constdStr_def sliceStr_def addStr_def subStr_def mulStr_def andStr_def orStr_def
  xorStr_def sllStr_def srlStr_def sraStr_def sdivStr_def udivStr_def smodStr_def
  concatStr_def notStr_def neqStr_def hwNeqStr_def iteStr_def impliesStr_def
  stateStr_def nextStr_def badStr_def constraintStr_def

lemmas gen_defs = genSort_def sortLID_def genInput_def genConst_def genZero_def genBinOp_def
  genSlice_def genUnaryOp_def genUnaryOp_Value_def genBad_def genConstraint_def
  genIte_Value_def genIte_def genImplies_def genState_def genNext_def requireSort_def
  DenseMap_at_def emit_def setOpLID_def setOpAlias_def getOpLID_def getOpLID_Value_def
  getOpAlias_def and_then_def noWidth_def

lemmas visit_defs = visit_PortInfo_def visit_OutputOp_def visit_ConstantOp_def
  visit_WireOp_def visitBinOp_def visit_ExtractOp_def visit_ICmpOp_def visit_MuxOp_def
  visit_AssertOp_def visit_AssumeOp_def visit_FirRegOp_def getOperand_def addrOf_def
  isInput_def regTransition_def runOnModule_def runOnOperation_def

lemma noLID_neq_small [simp]:
  "noLID \<noteq> 1" "noLID \<noteq> 2" "noLID \<noteq> 3" "noLID \<noteq> 4" "noLID \<noteq> 5" "noLID \<noteq> 6"
  "noLID \<noteq> 7" "noLID \<noteq> 8" "noLID \<noteq> 9" "noLID \<noteq> 10"
  by (simp_all add: noLID_def)

subsection \<open>Invariants of the stream\<close>

lemma steps_refl [simp, intro]: "steps p A s s"
  by (simp add: steps_def)

lemma steps_trans: "steps p A s s1 \<Longrightarrow> steps p A s1 s2 \<Longrightarrow> steps p A s s2"
  by (simp add: steps_def)

lemma steps_prim: "steps p A s s1 \<Longrightarrow> prim p A s1 s2 \<Longrightarrow> steps p A s s2"
  by (simp add: steps_def)

lemma steps_emit: "steps p A s s1 \<Longrightarrow> inst \<in> A \<Longrightarrow> steps p A s (emit (S inst # fs) s1)"
  by (erule steps_prim) (rule p_line)

lemma steps_setOpLID: "steps p A s s1 \<Longrightarrow> steps p A s (setOpLID op s1)"
  unfolding setOpLID_def by (auto elim: steps_prim intro: p_opLID)

lemma steps_setOpAlias: "steps p A s s1 \<Longrightarrow> steps p A s (setOpAlias a op s1)"
  unfolding setOpAlias_def by (auto elim: steps_prim intro: p_alias)

lemma steps_and_then:
  assumes "steps p A s (final r)" and "\<And>s1. r = Inr s1 \<Longrightarrow> steps p A s1 (final (f s1))"
  shows "steps p A s (final (and_then r f))"
  using assms by (cases r) (auto simp: and_then_def intro: steps_trans)

lemma genSort_steps: "steps p A s (final (genSort ty w s))"
  unfolding genSort_def DenseMap_at_def
  by (auto split: option.splits intro: steps_prim [OF steps_refl] p_sort)

lemma genZero_steps: "steps p A s (final (genZero w s))"
  unfolding genZero_def DenseMap_at_def
  by (auto split: option.splits intro: steps_prim [OF steps_refl] p_zero)

lemma genInput_steps: "inputStr \<in> A \<Longrightarrow> steps p A s (final (genInput w name s))"
  unfolding genInput_def inputStr_def
  by (auto split: option.splits intro!: steps_emit)

lemma genConst_steps: "constdStr \<in> A \<Longrightarrow> steps p A s (final (genConst v w op s))"
  unfolding genConst_def Let_def
  by (auto split: option.splits intro!: steps_emit steps_setOpLID)

lemma genBinOp_steps: "inst \<in> A \<Longrightarrow> steps p A s (final (genBinOp inst op a b w s))"
  unfolding genBinOp_def Let_def
  by (auto split: option.splits intro!: steps_emit steps_setOpLID)

lemma genSlice_steps: "sliceStr \<in> A \<Longrightarrow> steps p A s (final (genSlice op a lb w s))"
  unfolding genSlice_def Let_def
  by (auto split: option.splits intro!: steps_emit steps_setOpLID)

lemma genUnaryOp_steps: "inst \<in> A \<Longrightarrow> steps p A s (final (genUnaryOp op a inst w s))"
  unfolding genUnaryOp_def Let_def
  by (auto split: option.splits intro!: steps_emit steps_setOpLID)

lemma genUnaryOp_Value_steps: "inst \<in> A \<Longrightarrow> steps p A s (final (genUnaryOp_Value op a inst w s))"
  unfolding genUnaryOp_Value_def by (rule genUnaryOp_steps)

lemma genBad_steps: "badStr \<in> A \<Longrightarrow> steps p A s (final (genBad op s))"
  unfolding genBad_def Let_def
  by (auto split: option.splits intro!: steps_emit steps_setOpLID)

lemma genConstraint_steps: "constraintStr \<in> A \<Longrightarrow> steps p A s (final (genConstraint e s))"
  unfolding genConstraint_def Let_def
  by (auto split: option.splits intro!: steps_emit steps_setOpLID)

lemma genIte_Value_steps: "iteStr \<in> A \<Longrightarrow> steps p A s (final (genIte_Value op c t f w s))"
  unfolding genIte_Value_def Let_def
  by (auto split: option.splits intro!: steps_emit steps_setOpLID)

lemma genIte_steps: "iteStr \<in> A \<Longrightarrow> steps p A s (final (genIte op c t f w s))"
  unfolding genIte_def Let_def
  by (auto split: option.splits intro!: steps_emit steps_setOpLID)

lemma genImplies_steps: "impliesStr \<in> A \<Longrightarrow> steps p A s (final (genImplies op l r s))"
  unfolding genImplies_def Let_def
  by (auto split: option.splits intro!: steps_emit steps_setOpLID)

lemma genState_steps: "stateStr \<in> A \<Longrightarrow> steps p A s (final (genState op w name s))"
  unfolding genState_def Let_def
  by (auto split: option.splits intro!: steps_emit steps_setOpLID)

lemma genNext_steps: "nextStr \<in> A \<Longrightarrow> steps p A s (final (genNext n r w s))"
  unfolding genNext_def Let_def
  by (auto split: option.splits intro!: steps_emit steps_setOpLID)

lemma requireSort_steps: "steps p A s (final (requireSort ty s))"
  unfolding requireSort_def Let_def by (auto intro: genSort_steps)

lemma prim_mono: "prim p A s s' \<Longrightarrow> (p \<longrightarrow> q) \<Longrightarrow> A \<subseteq> B \<Longrightarrow> prim q B s s'"
  by (induction rule: prim.induct) (auto intro: prim.intros)

lemma steps_mono: "steps p A s s' \<Longrightarrow> (p \<longrightarrow> q) \<Longrightarrow> A \<subseteq> B \<Longrightarrow> steps q B s s'"
  unfolding steps_def
  by (induction rule: rtranclp_induct) (auto intro: rtranclp.rtrancl_into_rtrancl prim_mono)

lemma body_insts_mem [simp]:
  "constdStr \<in> body_insts" "sliceStr \<in> body_insts" "addStr \<in> body_insts"
  "subStr \<in> body_insts" "mulStr \<in> body_insts" "andStr \<in> body_insts" "orStr \<in> body_insts"
  "xorStr \<in> body_insts" "sllStr \<in> body_insts" "srlStr \<in> body_insts" "sraStr \<in> body_insts"
  "sdivStr \<in> body_insts" "udivStr \<in> body_insts" "smodStr \<in> body_insts"
  "concatStr \<in> body_insts" "notStr \<in> body_insts" "neqStr \<in> body_insts"
  "iteStr \<in> body_insts" "impliesStr \<in> body_insts" "stateStr \<in> body_insts"
  "badStr \<in> body_insts" "constraintStr \<in> body_insts" "inputStr \<in> body_insts"
  by (simp_all add: body_insts_def str_defs)

lemma pred_in_body_insts [simp]: "stringifyICmpPredicate p \<in> body_insts"
  by (cases p) (simp_all add: body_insts_def str_defs)

lemma steps_regs: "steps p A s s1 \<Longrightarrow> steps p A s (s1\<lparr> regOps := regOps s1 @ [r] \<rparr>)"
  by (erule steps_prim) (rule p_regs)

lemma steps_input:
  "steps True A s s1 \<Longrightarrow> steps True A s (s1\<lparr> inputLIDs := (inputLIDs s1)(i \<mapsto> l) \<rparr>)"
  by (erule steps_prim) (rule p_input, simp)

lemma steps_reset: "steps True A s s1 \<Longrightarrow> steps True A s (s1\<lparr> resetLID := l \<rparr>)"
  by (erule steps_prim) (rule p_reset, simp)

lemma steps_banner: "steps p A s s1 \<Longrightarrow> steps p A s (s1\<lparr> outs := outs s1 @ [Banner] \<rparr>)"
  by (erule steps_prim) (rule p_banner)

lemma visit_PortInfo_steps: "inputStr \<in> A \<Longrightarrow> steps True A s (final (visit_PortInfo port s))"
  unfolding visit_PortInfo_def Let_def
  by (auto intro!: steps_and_then requireSort_steps steps_trans [OF _ genInput_steps]
      steps_reset steps_input)

lemma visit_steps: "steps p body_insts s (final (visit op s))"
proof (cases "opKind op")
  case (HWConstantOp v)
  then show ?thesis
    by (auto simp: visit_ConstantOp_def intro!: steps_and_then requireSort_steps genConst_steps)
next
  case HWWireOp
  then show ?thesis
    by (auto simp: visit_WireOp_def split: option.splits intro!: steps_setOpAlias)
next
  case (CombExtractOp lb)
  then show ?thesis
    by (auto simp: visit_ExtractOp_def split: option.splits
        intro!: steps_and_then requireSort_steps genSlice_steps)
next
  case (CombICmpOp pr)
  then show ?thesis
    by (auto simp: visit_ICmpOp_def Let_def split: option.splits
        intro!: steps_and_then genSort_steps genBinOp_steps)
next
  case CombMuxOp
  then show ?thesis
    by (auto simp: visit_MuxOp_def split: option.splits
        intro!: steps_and_then requireSort_steps genIte_Value_steps)
next
  case SVAssertOp
  then show ?thesis
    by (auto simp: visit_AssertOp_def split: option.splits
        intro!: steps_and_then genSort_steps genImplies_steps genUnaryOp_steps
          genUnaryOp_Value_steps genBad_steps)
next
  case SVAssumeOp
  then show ?thesis
    by (auto simp: visit_AssumeOp_def split: option.splits intro!: genConstraint_steps)
next
  case (SeqFirRegOp name)
  then show ?thesis
    by (auto simp: visit_FirRegOp_def split: option.splits
        intro!: steps_and_then requireSort_steps genState_steps steps_regs)
qed (auto simp: visit_OutputOp_def visitBinOp_def split: option.splits
      intro!: steps_and_then requireSort_steps genBinOp_steps)

lemma visitPorts_steps: "inputStr \<in> A \<Longrightarrow> steps True A s (final (visitPorts ports s))"
  by (induction ports arbitrary: s) (auto intro!: steps_and_then visit_PortInfo_steps)

lemma walkOps_steps: "steps p body_insts s (final (walkOps ops s))"
  by (induction ops arbitrary: s) (auto intro!: steps_and_then visit_steps simp del: visit.simps)

lemma regTransition_steps:
  "iteStr \<in> A \<Longrightarrow> nextStr \<in> A \<Longrightarrow> steps p A s (final (regTransition reg s))"
  unfolding regTransition_def Let_def
  by (auto split: opkind.splits option.splits
      intro!: steps_and_then genSort_steps genZero_steps genIte_steps genNext_steps)

lemma regLoop_steps:
  "iteStr \<in> A \<Longrightarrow> nextStr \<in> A \<Longrightarrow> steps p A s (final (regLoop regs s))"
  by (induction regs arbitrary: s) (auto intro!: steps_and_then regTransition_steps)

lemma runOnModule_steps: "steps True all_insts s (final (runOnModule m s))"
  unfolding runOnModule_def
  apply (rule steps_and_then)
   apply (rule visitPorts_steps, simp add: all_insts_def str_defs)
  apply (rule steps_and_then)
   apply (rule steps_mono [OF walkOps_steps [where p = True]], simp,
      simp add: body_insts_def all_insts_def)
  apply (rule steps_and_then)
   apply (rule regLoop_steps; simp add: all_insts_def str_defs)
  apply (auto intro!: steps_banner)
  done

lemma runOnModules_steps: "steps True all_insts s (final (runOnModules ms s))"
  by (induction ms arbitrary: s) (auto intro!: steps_and_then runOnModule_steps)

lemma nlines_append [simp]: "nlines (xs @ ys) = nlines xs + nlines ys"
  by (induction xs rule: nlines.induct) auto

lemma numbered_append:
  "numbered l (xs @ ys) = (numbered l xs \<and> numbered (l + of_nat (nlines xs)) ys)"
proof (induction l xs rule: numbered.induct)
  case (3 l fs xs)
  then show ?case
    by (auto split: list.splits field.splits simp: ac_simps)
qed auto

lemma grows_refl [simp]: "grows s s"
  by (simp add: grows_def)

lemma grows_trans: "grows s s1 \<Longrightarrow> grows s1 s2 \<Longrightarrow> grows s s2"
  unfolding grows_def
  by (auto simp: numbered_append add.assoc)

lemma prim_grows: "prim p A s s' \<Longrightarrow> grows s s'"
  by (induction rule: prim.induct) (auto simp: grows_def emit_def)

lemma steps_grows: "steps p A s s' \<Longrightarrow> grows s s'"
  unfolding steps_def
  by (induction rule: rtranclp_induct) (auto intro: grows_trans prim_grows)

lemma numbered_line_lids:
  "numbered l xs \<Longrightarrow> line_lids xs = map (\<lambda>i. l + of_nat i) [0..<nlines xs]"
proof (induction l xs rule: numbered.induct)
  case (3 l fs xs)
  then obtain rest where fs: "fs = N l # rest" and n: "numbered (l + 1) xs"
    by (auto split: list.splits field.splits)
  have "map (\<lambda>i. l + of_nat i) [0..<Suc (nlines xs)]
      = l # map (\<lambda>i. l + 1 + of_nat i) [0..<nlines xs]"
    by (simp add: upt_conv_Cons map_Suc_upt [symmetric] add.assoc del: upt_Suc)
  with 3 fs n show ?case by simp
qed auto

lemma unat_one_plus: "i < 2 ^ 64 - 1 \<Longrightarrow> unat (1 + of_nat i :: 64 word) = Suc i"
  by (simp add: unat_word_ariths unat_of_nat)

lemma lids_from_one:
  assumes "n < 2 ^ 64"
  shows "map unat (map (\<lambda>i. 1 + of_nat i :: 64 word) [0..<n]) = [1..<Suc n]"
proof -
  have "map unat (map (\<lambda>i. 1 + of_nat i :: 64 word) [0..<n]) = map Suc [0..<n]"
    using assms by (auto simp: unat_one_plus)
  then show ?thesis
    by (simp add: map_Suc_upt)
qed

lemma runOnOperation_grows: "grows initial_state (final (runOnOperation ms))"
  unfolding runOnOperation_def by (rule steps_grows [OF runOnModules_steps])

lemma runOnModules_append:
  "runOnModules (ms @ ms') s = and_then (runOnModules ms s) (runOnModules ms')"
  by (induction ms arbitrary: s) (auto simp: and_then_def split: sum.splits)

text \<open>
  C7. In the stream of any run of the pass (ended or aborted), the leading integers of
  the lines are 1, 2, 3, ... in this order: each line takes the counter's value and
  increments it once, so the counter ends one above the number of lines; and a longer
  run only appends to the stream. The counter is a \<open>size_t\<close>: the statement is for
  streams of fewer than \<open>2^64 - 1\<close> lines.
\<close>

theorem lids_strictly_increasing:
  assumes "nlines (outs (final (runOnOperation ms))) < 2 ^ 64 - 1"
  shows "map unat (line_lids (outs (final (runOnOperation ms))))
           = [1 ..< Suc (nlines (outs (final (runOnOperation ms))))]
       \<and> unat (lid (final (runOnOperation ms))) = Suc (nlines (outs (final (runOnOperation ms))))
       \<and> prefix (outs (final (runOnOperation ms))) (outs (final (runOnOperation (ms @ ms'))))"
proof -
  let ?s = "final (runOnOperation ms)"
  from runOnOperation_grows [of ms]
  have num: "numbered 1 (outs ?s)" and l: "lid ?s = 1 + of_nat (nlines (outs ?s))"
    by (auto simp: grows_def initial_state_def)
  from numbered_line_lids [OF num] assms
  have a: "map unat (line_lids (outs ?s)) = [1 ..< Suc (nlines (outs ?s))]"
    using lids_from_one [of "nlines (outs ?s)"] by simp
  from l assms have b: "unat (lid ?s) = Suc (nlines (outs ?s))"
    by (simp add: unat_one_plus)
  have c: "prefix (outs ?s) (outs (final (runOnOperation (ms @ ms'))))"
  proof (cases "runOnOperation ms")
    case (Inl s1)
    then show ?thesis
      by (simp add: runOnOperation_def runOnModules_append and_then_def)
  next
    case (Inr s1)
    have "grows s1 (final (runOnModules ms' s1))"
      by (rule steps_grows [OF runOnModules_steps])
    with Inr show ?thesis
      by (auto simp: runOnOperation_def runOnModules_append and_then_def grows_def)
  qed
  from a b c show ?thesis by simp
qed

theorem lids_strictly_increasing_witness:
  "nlines (outs (final (runOnOperation [assume_module]))) < 2 ^ 64 - 1
   \<and> map unat (line_lids (outs (final (runOnOperation [assume_module])))) = [1, 2]
   \<and> unat (lid (final (runOnOperation [assume_module]))) = 3
   \<and> render (outs (final (runOnOperation [assume_module]))) =
        ''1 constraint 18446744073709551615'' @ nlStr
        @ ''2 constraint 18446744073709551615'' @ nlStr @ bannerStr
   \<and> prefix (outs (final (runOnOperation [assume_module])))
        (outs (final (runOnOperation ([assume_module] @ [assume_module]))))"
  using lids_strictly_increasing [of "[assume_module]" "[assume_module]"]
  by (simp add: assume_module_def initial_state_def gen_defs visit_defs str_defs Let_def
      render_simps)

lemma ite_conds_append [simp]: "ite_conds (xs @ ys) = ite_conds xs @ ite_conds ys"
  by (induction xs) (auto split: option.splits)




lemma returned_final: "returned r \<Longrightarrow> r = Inr (final r)"
  by (cases r) auto











lemma gen_regOps [simp]:
  "regOps (final (genSort ty w s)) = regOps s"
  "regOps (final (genInput w name s)) = regOps s"
  "regOps (final (genConst v w op s)) = regOps s"
  "regOps (final (genZero w s)) = regOps s"
  "regOps (final (genBinOp inst op a b w s)) = regOps s"
  "regOps (final (genSlice op a lb w s)) = regOps s"
  "regOps (final (genUnaryOp op op0 inst w s)) = regOps s"
  "regOps (final (genUnaryOp_Value op a inst w s)) = regOps s"
  "regOps (final (genBad op s)) = regOps s"
  "regOps (final (genConstraint a s)) = regOps s"
  "regOps (final (genIte_Value op c a b w s)) = regOps s"
  "regOps (final (genIte op cl tlid flid w s)) = regOps s"
  "regOps (final (genImplies op a b s)) = regOps s"
  "regOps (final (genState op w name s)) = regOps s"
  "regOps (final (genNext n r w s)) = regOps s"
  "regOps (final (requireSort t s)) = regOps s"
  by (auto simp: gen_defs Let_def split: option.splits)









subsection \<open>Runs of a fresh pass object\<close>














subsection \<open>Sort declarations\<close>


subsection \<open>Register transitions\<close>


subsection \<open>The reset LID\<close>


subsection \<open>LID lookup\<close>





subsection \<open>The pass object across modules\<close>



section \<open>Properties of the LTL lowering\<close>

subsection \<open>Matching\<close>

lemma matchOperands_steady:
  assumes "list_all steady ms"
  shows "fst (matchOperands ms vs b) = fst (matchOperands ms vs b')"
  using assms
proof (induction ms arbitrary: vs b b')
  case Nil
  show ?case by (cases vs) simp_all
next
  case (Cons m ms)
  show ?case
  proof (cases vs)
    case Nil
    then show ?thesis by simp
  next
    case (Cons v vs')
    from Cons.prems have "steady m" and rest: "list_all steady ms" by simp_all
    then have h: "fst (m v b) = fst (m v b')" unfolding steady_def by blast
    obtain r1 b1 where m1: "m v b = (r1, b1)" by (cases "m v b")
    obtain r1' b1' where m2: "m v b' = (r1', b1')" by (cases "m v b'")
    from h m1 m2 have r: "r1 = r1'" by simp
    have "fst (matchOperands ms vs' b1) = fst (matchOperands ms vs' b1')"
      by (rule Cons.IH [OF rest])
    then show ?thesis
      unfolding Cons by (simp add: m1 m2 r case_prod_beta)
  qed
qed

lemma m_Bool_steady [simp]: "steady (m_Bool what)"
  unfolding steady_def by (simp add: m_Bool_def)

lemma m_One_steady [simp]: "steady m_One"
  unfolding steady_def by (simp add: m_One_def split: mval.splits ltlkind.splits)

lemma m_OpWithBind_steady [simp]:
  assumes "list_all steady ms"
  shows "steady (m_OpWithBind isa opBind ms)"
  unfolding steady_def
proof (intro allI)
  fix v b b'
  show "fst (m_OpWithBind isa opBind ms v b) = fst (m_OpWithBind isa opBind ms v b')"
  proof (cases v)
    case (Res a k ops ty)
    from matchOperands_steady [OF assms, of ops b b'] show ?thesis
      by (simp add: m_OpWithBind_def Res case_prod_beta)
  qed (simp_all add: m_OpWithBind_def)
qed

lemma matchOI_result: "fst (matchOI v b) = fst (matchOI v b')"
proof -
  have "steady matchOI" unfolding matchOI_def by simp
  then show ?thesis unfolding steady_def by blast
qed

lemma matchAssertProperty_result:
  "fst (matchAssertProperty v b) = fst (matchAssertProperty v b')"
proof -
  have "steady matchAssertProperty" unfolding matchAssertProperty_def by simp
  then show ?thesis unfolding steady_def by blast
qed

text \<open>
  C8. When the non-overlapping shape matches and the delay's \<open>length\<close> is not 0
  (a non-zero length, or none), and when none of the three shapes matches, the
  conversion fails with its diagnostic and the rewriter is as it was: nothing created,
  replaced or erased.
\<close>

theorem matchAndRewrite_failure_leaves_IR:
  "(fst (matchNOI property unbound)
      \<and> getLength (delayOp (snd (matchNOI property unbound))) \<noteq> Some 0
     \<longrightarrow> matchAndRewrite folder op property label rw
           = (failure '' Delay must have a length of 0!'', rw))
   \<and> (\<not> fst (matchNOI property unbound) \<and> \<not> fst (matchOI property unbound)
      \<and> \<not> fst (matchAssertProperty property unbound)
     \<longrightarrow> matchAndRewrite folder op property label rw
           = (failure ''AssertProperty format is invalid!'', rw))"
proof (intro conjI impI)
  assume "fst (matchNOI property unbound)
      \<and> getLength (delayOp (snd (matchNOI property unbound))) \<noteq> Some 0"
  then show "matchAndRewrite folder op property label rw
           = (failure '' Delay must have a length of 0!'', rw)"
    by (simp add: matchAndRewrite_def case_prod_beta)
next
  assume h: "\<not> fst (matchNOI property unbound) \<and> \<not> fst (matchOI property unbound)
      \<and> \<not> fst (matchAssertProperty property unbound)"
  let ?b1 = "snd (matchNOI property unbound)"
  from h matchOI_result [of property ?b1 unbound] have o: "\<not> fst (matchOI property ?b1)"
    by simp
  from h matchAssertProperty_result [of property "snd (matchOI property ?b1)" unbound]
  have g: "\<not> fst (matchAssertProperty property (snd (matchOI property ?b1)))"
    by simp
  from h o g show "matchAndRewrite folder op property label rw
           = (failure ''AssertProperty format is invalid!'', rw)"
    by (simp add: matchAndRewrite_def buildDisableInput_def case_prod_beta)
qed

lemmas match_defs = matchNOI_def matchOI_def matchAssertProperty_def m_OpWithBind_def
  m_Bool_def m_One_def unbound_def

theorem matchAndRewrite_failure_leaves_IR_witness:
  "matchAndRewrite no_fold (assert_op (noi_property 3 (Some 1))) (noi_property 3 (Some 1))
      ''lbl'' empty_rewriter = (failure '' Delay must have a length of 0!'', empty_rewriter)
   \<and> matchAndRewrite no_fold (assert_op (noi_property 3 None)) (noi_property 3 None)
      ''lbl'' empty_rewriter = (failure '' Delay must have a length of 0!'', empty_rewriter)
   \<and> matchAndRewrite no_fold (assert_op val_a) val_a ''lbl'' empty_rewriter
      = (failure ''AssertProperty format is invalid!'', empty_rewriter)"
  using matchAndRewrite_failure_leaves_IR [of "noi_property 3 (Some 1)" no_fold
      "assert_op (noi_property 3 (Some 1))" "''lbl''" empty_rewriter]
    matchAndRewrite_failure_leaves_IR [of "noi_property 3 None" no_fold
      "assert_op (noi_property 3 None)" "''lbl''" empty_rewriter]
    matchAndRewrite_failure_leaves_IR [of val_a no_fold "assert_op val_a" "''lbl''"
      empty_rewriter]
  by (simp add: match_defs noi_property_def val_a_def val_b_def val_d_def val_clk_def)

subsection \<open>Overlapping implication\<close>

lemmas rewriter_defs = create_def replaceOp_def replaceOpWithNewOp_def eraseOp_def
  createOrFold_ToClockOp_def backedge_get_def backedge_setValue_def backedge_consume_def
  substVal_def

lemma concat_matcher_fails:
  assumes "\<forall>addr ops ty. a \<noteq> Res addr LTLConcatOp ops ty"
  shows "m_OpWithBind (\<lambda>k. k = LTLConcatOp) opBind ms a b = (False, b)"
  using assms by (cases a) (auto simp: m_OpWithBind_def)

lemma matchNOI_on_overlapping:
  assumes "\<forall>addr ops ty. a \<noteq> Res addr LTLConcatOp ops ty"
    and "typeOf b = IntegerTy 1" and "typeOf d = IntegerTy 1" and "typeOf clk = IntegerTy 1"
  shows "matchNOI (Res c (LTLClockOp e)
            [Res di LTLDisableOp [Res im LTLImplicationOp [a, b] tyi, d] tyd, clk] tyc) b0
         = (False, b0\<lparr> consequent := b, disableCond := d, ltlClock := clk \<rparr>)"
  using assms(2-4)
  by (simp add: matchNOI_def m_OpWithBind_def [where isa = isClockOp]
      m_OpWithBind_def [where isa = "\<lambda>k. k = LTLDisableOp"]
      m_OpWithBind_def [where isa = "\<lambda>k. k = LTLImplicationOp"]
      concat_matcher_fails [OF assms(1)] m_Bool_def)

text \<open>
  C4. For an assertion over \<open>clock(disable(implication(a, b), d), clk)\<close> with 1-bit
  \<open>a\<close>, \<open>b\<close>, \<open>d\<close>, \<open>clk\<close> (and \<open>a\<close> not a concatenation, so that the
  non-overlapping pattern does not match), the conversion succeeds and creates, in this
  order, the 1-bit constant 1, \<open>a XOR 1\<close>, \<open>(a XOR 1) OR b\<close>, \<open>d OR ((a XOR 1) OR b)\<close>
  and the \<open>always\<close> block on the clock's edge that holds the immediate assertion of the
  last value; the disable is replaced by that value, the assertion by the new one, and
  the clock and implication are erased.
\<close>

theorem overlapping_implication_condition:
  assumes "typeOf a = IntegerTy 1" and "typeOf b = IntegerTy 1" and "typeOf d = IntegerTy 1"
    and "typeOf clk = IntegerTy 1"
    and "\<forall>addr ops ty. a \<noteq> Res addr LTLConcatOp ops ty"
    and "property = Res c (LTLClockOp e)
            [Res di LTLDisableOp [Res im LTLImplicationOp [a, b] tyi, d] tyd, clk] tyc"
    and "k = nextId rw"
  shows "matchAndRewrite folder (Res oa OtherKind [property] NoneTy) property label rw =
     (success,
      rw\<lparr> created := created rw @
            [(k, hw_constant i1 1),
             (k + 1, comb_xor a (New k i1)),
             (k + 2, comb_or (New (k + 1) i1) b),
             (k + 3, comb_or d (New (k + 2) i1)),
             (k + 4, sv_always (ltlToSVEventControl e) clk
                       [sv_assert (New (k + 3) i1) Immediate label])],
          nextId := k + 5,
          replacedOps := replacedOps rw @ [(di, New (k + 3) i1), (oa, Null)],
          erasedOps := erasedOps rw @ [c, im] \<rparr>)"
proof -
  let ?p = "Res c (LTLClockOp e)
            [Res di LTLDisableOp [Res im LTLImplicationOp [a, b] tyi, d] tyd, clk] tyc"
  define b1 where "b1 = unbound\<lparr> consequent := b, disableCond := d, ltlClock := clk \<rparr>"
  have b1: "matchNOI ?p unbound = (False, b1)"
    unfolding b1_def by (rule matchNOI_on_overlapping [OF assms(5,2,3,4)])
  have cd: "concatOp b1 = Null" "delayOp b1 = Null"
    by (simp_all add: b1_def unbound_def)
  have o: "matchOI ?p b1 = (True, b1\<lparr> antecedent := a, consequent := b, implOp :=
       Res im LTLImplicationOp [a, b] tyi, disableCond := d,
       disableOp := Res di LTLDisableOp [Res im LTLImplicationOp [a, b] tyi, d] tyd,
       ltlClock := clk, clockOp := ?p \<rparr>)"
    using assms(1-4) by (simp add: matchOI_def m_OpWithBind_def m_Bool_def)
  show ?thesis
    unfolding assms(6) matchAndRewrite_def b1
    using assms(1-4,7)
    by (simp add: buildDisableInput_def o emitAssertion_def makeImplication_def
        visit_DisableOp_def rewriter_defs i1_def cd)
qed

theorem overlapping_implication_condition_witness:
  "matchAndRewrite no_fold (assert_op oi_property) oi_property ''lbl'' empty_rewriter =
     (success,
      \<lparr> created =
          [(0, hw_constant i1 1),
           (1, comb_xor val_a (New 0 i1)),
           (2, comb_or (New 1 i1) val_b),
           (3, comb_or val_d (New 2 i1)),
           (4, sv_always AtPosEdge val_clk [sv_assert (New 3 i1) Immediate ''lbl''])],
        nextId = 5,
        replacedOps = [(102, New 3 i1), (120, Null)],
        erasedOps = [103, 101] \<rparr>)"
  using overlapping_implication_condition [where a = val_a and b = val_b and d = val_d
      and clk = val_clk and property = oi_property and c = 103 and e = Pos and di = 102
      and im = 101 and tyi = PropertyTy and tyd = PropertyTy and tyc = PropertyTy
      and k = 0 and rw = empty_rewriter and folder = no_fold and oa = 120
      and label = "''lbl''"]
  by (simp add: oi_property_def val_a_def val_b_def val_d_def val_clk_def assert_op_def
      empty_rewriter_def)

subsection \<open>Non-overlapping implication\<close>

lemma older_neq: "older k v \<Longrightarrow> k \<le> j \<Longrightarrow> v \<noteq> New j ty"
  by (auto simp: older_def)

lemma substVal_older: "older k v \<Longrightarrow> k \<le> j \<Longrightarrow> substVal (New j ty) x v = v"
  by (auto simp: substVal_def older_def)

lemma substOp_older:
  "list_all (older k) (operandsOf op) \<Longrightarrow> k \<le> j \<Longrightarrow> substOp (New j ty) x op = op"
proof (induction op)
  case (sv_always e clk body)
  then have "map (substOp (New j ty) x) body = body"
    by (intro map_idI) (auto simp: list_all_iff)
  with sv_always.prems show ?case
    by (auto simp: substVal_older)
qed (auto simp: substVal_older)

lemma wellFormed_subst:
  assumes "wellFormed rw" and "nextId rw \<le> j"
  shows "map (\<lambda>(i, op). (i, substOp (New j ty) x op)) (created rw) = created rw"
  using assms
  by (intro map_idI) (auto simp: wellFormed_def list_all_iff substOp_older)

lemma wellFormed_filter:
  assumes "wellFormed rw" and "nextId rw \<le> j"
  shows "filter (\<lambda>(i, op). i \<noteq> j) (created rw) = created rw"
  using assms
  by (intro filter_True) (auto simp: wellFormed_def list_all_iff)

lemma pipelineLoop_created:
  assumes "nextId rw = Suc base"
  shows "pipelineLoop i n (New base ty) clock d rv rw =
     (New (base + (n - i)) ty,
      rw\<lparr> created := created rw @
            map (\<lambda>j. (Suc (base + (j - i)),
                      seq_compreg (New (base + (j - i)) ty) clock d rv
                        (antecedentName j) rv)) [i..<n],
          nextId := Suc (base + (n - i)) \<rparr>)"
  using assms
proof (induction i n "New base ty" clock d rv rw arbitrary: base
    rule: pipelineLoop.induct)
  case (1 i n clock d rv rw)
  show ?case
  proof (cases "i < n")
    case False
    then show ?thesis
      using "1.prems" by (subst pipelineLoop.simps) simp
  next
    case True
    let ?rw1 = "rw\<lparr> created := created rw @
        [(Suc base, seq_compreg (New base ty) clock d rv (antecedentName i) rv)],
        nextId := Suc (Suc base) \<rparr>"
    have c: "create (seq_compreg (New base ty) clock d rv (antecedentName i) rv) rw
        = (New (Suc base) ty, ?rw1)"
      using "1.prems" by (simp add: create_def)
    have ih: "pipelineLoop (Suc i) n (New (Suc base) ty) clock d rv ?rw1 =
       (New (Suc base + (n - Suc i)) ty,
        ?rw1\<lparr> created := created ?rw1 @
            map (\<lambda>j. (Suc (Suc base + (j - Suc i)),
                      seq_compreg (New (Suc base + (j - Suc i)) ty) clock d rv
                        (antecedentName j) rv)) [Suc i..<n],
          nextId := Suc (Suc base + (n - Suc i)) \<rparr>)"
      by (rule "1.hyps" [OF True c [symmetric] refl]) simp
    have m: "map (\<lambda>j. (Suc (Suc (base + (j - Suc i))),
                      seq_compreg (New (Suc (base + (j - Suc i))) ty) clock d rv
                        (antecedentName j) rv)) [Suc i..<n]
        = map (\<lambda>j. (Suc (base + (j - i)),
                      seq_compreg (New (base + (j - i)) ty) clock d rv
                        (antecedentName j) rv)) [Suc i..<n]"
      by (rule map_cong) (auto simp: Suc_diff_le)
    have u: "[i..<n] = i # [Suc i..<n]"
      using True by (simp add: upt_conv_Cons)
    from True have e: "Suc (base + n - Suc i) = base + n - i" by simp
    show ?thesis
      apply (subst pipelineLoop.simps)
      using True apply (simp add: c ih m u e)
      done
  qed
qed

lemma log2floor_bounds: "1 \<le> m \<Longrightarrow> 2 ^ log2floor m \<le> m \<and> m < 2 ^ Suc (log2floor m)"
proof (induction m rule: log2floor.induct)
  case (1 n)
  show ?case
  proof (cases "n < 2")
    case True
    with "1.prems" show ?thesis by (subst (1 2) log2floor.simps) simp
  next
    case False
    then have "1 \<le> n div 2" by simp
    with "1.IH" False have "2 ^ log2floor (n div 2) \<le> n div 2"
      and "n div 2 < 2 ^ Suc (log2floor (n div 2))" by simp_all
    then have "2 * 2 ^ log2floor (n div 2) \<le> n" and "n < 2 * 2 ^ Suc (log2floor (n div 2))"
      by linarith+
    with False show ?thesis by (subst (1 2) log2floor.simps) simp
  qed
qed

lemma log2floor_less: "1 \<le> m \<Longrightarrow> m < 2 ^ k \<Longrightarrow> log2floor m < k"
proof -
  assume "1 \<le> m" and "m < 2 ^ k"
  with log2floor_bounds [of m] have "(2::nat) ^ log2floor m < 2 ^ k"
    by (meson le_less_trans)
  then show ?thesis by simp
qed

lemma delayRegW:
  assumes "n \<noteq> 0"
  shows "unat (ucast (Log2_64 n + 1) :: 64 word) = Suc (log2floor (unat n))"
proof -
  let ?L = "log2floor (unat n)"
  from assms have pos: "1 \<le> unat n" by (simp add: unat_gt_0 Suc_le_eq)
  have "unat n < 2 ^ 64" using unsigned_less [of n] by simp
  with pos have L: "?L < 64" by (rule log2floor_less)
  then have "(of_nat (63 - ?L) :: 32 word) = 63 - of_nat ?L" by simp
  then have "Log2_64 n = of_nat ?L"
    using assms by (simp add: Log2_64_def countl_zero_def)
  then have "Log2_64 n + 1 = of_nat (Suc ?L)" by simp
  moreover have "unat (of_nat (Suc ?L) :: 32 word) = Suc ?L"
    using L by (simp add: unat_of_nat del: of_nat_Suc)
  ultimately have "unat (Log2_64 n + 1) = Suc ?L" by (simp only:)
  then show ?thesis
    using L by (simp add: unsigned_ucast_eq take_bit_nat_eq_self)
qed

lemma filter_map_keep: "(\<And>j. j \<in> set xs \<Longrightarrow> P (f j)) \<Longrightarrow> filter P (map f xs) = map f xs"
  by (induction xs) auto

lemma makeDelayRegister_created:
  assumes n: "n \<noteq> 0"
    and rw: "wellFormed rw" "nextId rw = k"
    and old: "older k d" "older k clkin" "\<forall>c. folder clkin = Some c \<longrightarrow> older k c"
    and w: "w = IntegerTy (Suc (log2floor (unat n)))"
    and tc: "tc = (case folder clkin of None \<Rightarrow> [(k + 7, seq_to_clock clkin)] | Some c \<Rightarrow> [])"
    and ck: "clock = (case folder clkin of None \<Rightarrow> New (k + 7) ClockTy | Some c \<Rightarrow> c)"
    and r: "r = k + 7 + length tc"
  shows "makeDelayRegister folder (Res dl (LTLDelayOp n len) dops dty)
           (Res c (LTLClockOp e) [inp, clkin] tyc) d rw =
     (Backedge (k + 2) (New r w), New (k + 4) w, clock,
      rw\<lparr> created := created rw @
          [(k, hw_constant w 0), (k + 1, hw_constant w 1),
           (k + 2, backedge_placeholder w),
           (k + 3, comb_add (New r w) (New (k + 1) w)),
           (k + 4, hw_constant w n),
           (k + 5, comb_icmp eq (New r w) (New (k + 4) w)),
           (k + 6, comb_mux (New (k + 5) (IntegerTy 1)) (New (k + 4) w) (New (k + 3) w))]
          @ tc @
          [(r, seq_compreg (New (k + 6) w) clock d (New k w) ''delay_'' (New k w))],
         nextId := Suc r \<rparr>)"
proof (cases "folder clkin")
  case None
  from old have "d \<noteq> New (k + 2) w" "clkin \<noteq> New (k + 2) w"
    by (auto dest: older_neq [where j = "k + 2" and ty = w])
  then show ?thesis
    using None n rw(2) w tc ck r
    by (simp add: makeDelayRegister_def delayRegW rewriter_defs Let_def eval_nat_numeral
        wellFormed_subst [OF rw(1)])
next
  case (Some c')
  with old have "older k c'" by simp
  with old have "d \<noteq> New (k + 2) w" "c' \<noteq> New (k + 2) w"
    by (auto dest: older_neq [where j = "k + 2" and ty = w])
  then show ?thesis
    using Some n rw(2) w tc ck r
    by (simp add: makeDelayRegister_def delayRegW rewriter_defs Let_def eval_nat_numeral
        wellFormed_subst [OF rw(1)])
qed

lemma makeAntecedentPipeline_created:
  assumes n: "n \<noteq> 0" and ta: "typeOf ante = IntegerTy 1" and m: "nextId rw = m"
  shows "makeAntecedentPipeline ante n clock d rw =
     (New (m + unat n) i1,
      rw\<lparr> created := created rw @
          [(m, hw_constant i1 0),
           (m + 1, seq_compreg ante clock d (New m i1) ''antecedent_0'' (New m i1))]
          @ map (\<lambda>j. (m + 1 + j, seq_compreg (New (m + j) i1) clock d (New m i1)
                                   (antecedentName j) (New m i1))) [1..<unat n],
         nextId := m + unat n + 1 \<rparr>)"
proof -
  from n have pos: "1 \<le> unat n" by (simp add: unat_gt_0 Suc_le_eq)
  let ?rw12 = "rw\<lparr> created := created rw @
          [(m, hw_constant i1 0),
           (Suc m, seq_compreg ante clock d (New m i1) ''antecedent_0'' (New m i1))],
         nextId := Suc (Suc m) \<rparr>"
  have e: "map (\<lambda>j. (Suc (Suc m + (j - 1)),
                      seq_compreg (New (Suc m + (j - 1)) i1) clock d (New m i1)
                        (antecedentName j) (New m i1))) [1..<unat n]
      = map (\<lambda>j. (m + 1 + j, seq_compreg (New (m + j) i1) clock d (New m i1)
                                   (antecedentName j) (New m i1))) [1..<unat n]"
    by (rule map_cong) auto
  have "makeAntecedentPipeline ante n clock d rw
      = pipelineLoop 1 (unat n) (New (Suc m) i1) clock d (New m i1) ?rw12"
    using ta m by (simp add: makeAntecedentPipeline_def create_def i1_def Let_def)
  also have "\<dots> = (New (Suc m + (unat n - 1)) i1,
      ?rw12\<lparr> created := created ?rw12 @
            map (\<lambda>j. (Suc (Suc m + (j - 1)),
                      seq_compreg (New (Suc m + (j - 1)) i1) clock d (New m i1)
                        (antecedentName j) (New m i1))) [1..<unat n],
          nextId := Suc (Suc m + (unat n - 1)) \<rparr>)"
    by (rule pipelineLoop_created) simp
  finally show ?thesis
    using pos by (simp add: e)
qed

lemma makeAssertionCondition_created:
  assumes "typeOf aI = IntegerTy 1" and "nextId rw = m"
  shows "makeAssertionCondition dr dm aI cons d rw =
     (New (m + 5) i1,
      rw\<lparr> created := created rw @
          [(m, comb_icmp ult dr dm),
           (m + 1, hw_constant i1 1),
           (m + 2, comb_xor aI (New (m + 1) i1)),
           (m + 3, comb_or (New (m + 2) i1) cons),
           (m + 4, comb_or (New m i1) (New (m + 3) i1)),
           (m + 5, comb_or (New (m + 4) i1) d)],
         nextId := m + 6 \<rparr>)"
  using assms
  by (simp add: makeAssertionCondition_def create_def i1_def eval_nat_numeral Let_def)

lemma makeNonOverlappingImplication_created:
  assumes n: "n \<noteq> 0"
    and ta: "typeOf ante = IntegerTy 1"
    and rw: "wellFormed rw" "nextId rw = k"
    and old: "older k d" "older k clkin" "\<forall>c. folder clkin = Some c \<longrightarrow> older k c"
    and w: "w = IntegerTy (Suc (log2floor (unat n)))"
    and tc: "tc = (case folder clkin of None \<Rightarrow> [(k + 7, seq_to_clock clkin)] | Some c \<Rightarrow> [])"
    and ck: "clock = (case folder clkin of None \<Rightarrow> New (k + 7) ClockTy | Some c \<Rightarrow> c)"
    and r: "r = k + 7 + length tc"
  shows "makeNonOverlappingImplication folder ante cons (Res dl (LTLDelayOp n len) dops dty)
           (Res c (LTLClockOp e) [inp, clkin] tyc) d rw =
     (True, New (r + unat n + 7) i1,
      rw\<lparr> created := created rw @
          [(k, hw_constant w 0), (k + 1, hw_constant w 1),
           (k + 3, comb_add (New r w) (New (k + 1) w)),
           (k + 4, hw_constant w n),
           (k + 5, comb_icmp eq (New r w) (New (k + 4) w)),
           (k + 6, comb_mux (New (k + 5) i1) (New (k + 4) w) (New (k + 3) w))]
          @ tc @
          [(r, seq_compreg (New (k + 6) w) clock d (New k w) ''delay_'' (New k w)),
           (r + 1, hw_constant i1 0),
           (r + 2, seq_compreg ante clock d (New (r + 1) i1) ''antecedent_0''
                     (New (r + 1) i1))]
          @ map (\<lambda>j. (r + 2 + j, seq_compreg (New (r + 1 + j) i1) clock d (New (r + 1) i1)
                                   (antecedentName j) (New (r + 1) i1))) [1..<unat n]
          @ [(r + unat n + 2, comb_icmp ult (New r w) (New (k + 4) w)),
             (r + unat n + 3, hw_constant i1 1),
             (r + unat n + 4, comb_xor (New (r + unat n + 1) i1) (New (r + unat n + 3) i1)),
             (r + unat n + 5, comb_or (New (r + unat n + 4) i1) cons),
             (r + unat n + 6, comb_or (New (r + unat n + 2) i1) (New (r + unat n + 5) i1)),
             (r + unat n + 7, comb_or (New (r + unat n + 6) i1) d)],
         nextId := r + unat n + 8 \<rparr>)
"
proof -
  from n have pos: "1 \<le> unat n" by (simp add: unat_gt_0 Suc_le_eq)
  let ?pre = "[(k, hw_constant w 0), (k + 1, hw_constant w 1),
           (k + 2, backedge_placeholder w),
           (k + 3, comb_add (New r w) (New (k + 1) w)),
           (k + 4, hw_constant w n),
           (k + 5, comb_icmp eq (New r w) (New (k + 4) w)),
           (k + 6, comb_mux (New (k + 5) (IntegerTy 1)) (New (k + 4) w) (New (k + 3) w))]
          @ tc @
          [(r, seq_compreg (New (k + 6) w) clock d (New k w) ''delay_'' (New k w))]"
  let ?rw10 = "rw\<lparr> created := created rw @ ?pre, nextId := Suc r \<rparr>"
  let ?pipe = "[(Suc r, hw_constant i1 0),
           (Suc r + 1, seq_compreg ante clock d (New (Suc r) i1) ''antecedent_0''
              (New (Suc r) i1))]
          @ map (\<lambda>j. (Suc r + 1 + j, seq_compreg (New (Suc r + j) i1) clock d
                     (New (Suc r) i1) (antecedentName j) (New (Suc r) i1))) [1..<unat n]"
  let ?rw13 = "?rw10\<lparr> created := created ?rw10 @ ?pipe, nextId := Suc r + unat n + 1 \<rparr>"
  let ?m = "Suc r + unat n + 1"
  let ?cond = "[(?m, comb_icmp ult (New r w) (New (k + 4) w)),
           (?m + 1, hw_constant i1 1),
           (?m + 2, comb_xor (New (Suc r + unat n) i1) (New (?m + 1) i1)),
           (?m + 3, comb_or (New (?m + 2) i1) cons),
           (?m + 4, comb_or (New ?m i1) (New (?m + 3) i1)),
           (?m + 5, comb_or (New (?m + 4) i1) d)]"
  let ?rw19 = "?rw13\<lparr> created := created ?rw13 @ ?cond, nextId := ?m + 6 \<rparr>"
  have L1: "makeDelayRegister folder (Res dl (LTLDelayOp n len) dops dty)
           (Res c (LTLClockOp e) [inp, clkin] tyc) d rw
       = (Backedge (k + 2) (New r w), New (k + 4) w, clock, ?rw10)"
    by (rule makeDelayRegister_created [where folder = folder and clkin = clkin,
        OF n rw old w tc ck r])
  have L2: "makeAntecedentPipeline ante n clock d ?rw10 = (New (Suc r + unat n) i1, ?rw13)"
    by (rule makeAntecedentPipeline_created [OF n ta]) simp
  have L3: "makeAssertionCondition (New r w) (New (k + 4) w) (New (Suc r + unat n) i1) cons d
        ?rw13 = (New (?m + 5) i1, ?rw19)"
    by (rule makeAssertionCondition_created) (simp_all add: i1_def)
  have run: "makeNonOverlappingImplication folder ante cons (Res dl (LTLDelayOp n len) dops dty)
           (Res c (LTLClockOp e) [inp, clkin] tyc) d rw
       = (True, New (?m + 5) i1, backedge_consume (Backedge (k + 2) (New r w)) ?rw19)"
    unfolding makeNonOverlappingImplication_def
    by (simp only: getDelay.simps L1 L2 L3 Let_def prod.case backedge.sel)
  have rk: "k + 7 \<le> r" using r by simp
  have keep: "filter (\<lambda>(i, op). i \<noteq> k + 2)
       (map (\<lambda>j. (Suc r + 1 + j, seq_compreg (New (Suc r + j) i1) clock d
                     (New (Suc r) i1) (antecedentName j) (New (Suc r) i1))) [1..<unat n])
      = map (\<lambda>j. (Suc r + 1 + j, seq_compreg (New (Suc r + j) i1) clock d
                     (New (Suc r) i1) (antecedentName j) (New (Suc r) i1))) [1..<unat n]"
    using rk by (intro filter_map_keep) simp
  have "backedge_consume (Backedge (k + 2) (New r w)) ?rw19 =
      rw\<lparr> created := created rw @
          [(k, hw_constant w 0), (k + 1, hw_constant w 1),
           (k + 3, comb_add (New r w) (New (k + 1) w)),
           (k + 4, hw_constant w n),
           (k + 5, comb_icmp eq (New r w) (New (k + 4) w)),
           (k + 6, comb_mux (New (k + 5) i1) (New (k + 4) w) (New (k + 3) w))]
          @ tc @
          [(r, seq_compreg (New (k + 6) w) clock d (New k w) ''delay_'' (New k w)),
           (r + 1, hw_constant i1 0),
           (r + 2, seq_compreg ante clock d (New (r + 1) i1) ''antecedent_0''
                     (New (r + 1) i1))]
          @ map (\<lambda>j. (r + 2 + j, seq_compreg (New (r + 1 + j) i1) clock d (New (r + 1) i1)
                                   (antecedentName j) (New (r + 1) i1))) [1..<unat n]
          @ [(r + unat n + 2, comb_icmp ult (New r w) (New (k + 4) w)),
             (r + unat n + 3, hw_constant i1 1),
             (r + unat n + 4, comb_xor (New (r + unat n + 1) i1) (New (r + unat n + 3) i1)),
             (r + unat n + 5, comb_or (New (r + unat n + 4) i1) cons),
             (r + unat n + 6, comb_or (New (r + unat n + 2) i1) (New (r + unat n + 5) i1)),
             (r + unat n + 7, comb_or (New (r + unat n + 6) i1) d)],
         nextId := r + unat n + 8 \<rparr>"
    using rk keep tc wellFormed_filter [OF rw(1), of "k + 2"] rw(2)
    by (cases "folder clkin") (simp_all add: backedge_consume_def i1_def eval_nat_numeral)
  with run show ?thesis
    by (simp add: eval_nat_numeral)
qed

lemmas value_defs = val_a_def val_b_def val_d_def val_clk_def oi_property_def
  noi_property_def assert_op_def empty_rewriter_def no_fold_def

lemma matchNOI_on_noi:
  assumes "typeOf a = IntegerTy 1" "typeOf b = IntegerTy 1" "typeOf d = IntegerTy 1"
    "typeOf clk = IntegerTy 1"
    and "dlo = Res dl (LTLDelayOp n len) [Res one (ConstantLike 1) cops cty] dty"
    and "cco = Res cc LTLConcatOp [a, dlo] ccty"
    and "imo = Res im LTLImplicationOp [cco, b] ity"
    and "dio = Res di LTLDisableOp [imo, d] dity"
    and "property = Res c (LTLClockOp e) [dio, clk] pty"
  shows "\<exists>b1. matchNOI property unbound = (True, b1)
     \<and> antecedent b1 = a \<and> consequent b1 = b \<and> disableCond b1 = d \<and> ltlClock b1 = clk
     \<and> clockOp b1 = property \<and> disableOp b1 = dio \<and> implOp b1 = imo \<and> concatOp b1 = cco
     \<and> delayOp b1 = dlo \<and> disableInput b1 = Null"
  using assms by (simp add: matchNOI_def m_OpWithBind_def m_Bool_def m_One_def unbound_def)

text \<open>
  C2, amended to delays \<open>n \<ge> 1\<close>. For the assertion over
  \<open>clock(disable(implication(concat(a, delay(1, n, 0)), b), d), clk)\<close> with 1-bit
  \<open>a\<close>, \<open>b\<close>, \<open>d\<close>, \<open>clk\<close>, on a well-formed rewriter whose next number is \<open>k\<close>,
  the conversion succeeds and creates exactly, after what was there: the constants 0
  and 1 of width \<open>w = floor(log2 n) + 1\<close>; \<open>count + 1\<close>; the constant \<open>n\<close>;
  \<open>count == n\<close>; the multiplexer \<open>count == n ? n : count + 1\<close>; the clock conversion
  (unless it folds); the register \<open>delay_\<close> fed by the multiplexer, reset by \<open>d\<close> to 0;
  the 1-bit constant 0; the registers \<open>antecedent_0\<close> (fed by \<open>a\<close>) to
  \<open>antecedent_(n-1)\<close> (each fed by the one before), reset by \<open>d\<close> to 0; \<open>count < n\<close>;
  the 1-bit constant 1; \<open>a_(n-1) XOR 1\<close>; its disjunction with \<open>b\<close>; the disjunction
  of \<open>count < n\<close> with that; the disjunction of that with \<open>d\<close>, which is the condition
  of the claim; its disjunction with \<open>d\<close> once more, which replaces the disable
  operation; and the \<open>sv.always\<close> on the clock's edge whose immediate assertion checks
  it. The back-edge placeholder (number \<open>k + 2\<close>) is gone; the asserted operation is
  replaced, and the clock, implication, concatenation and delay operations are erased.
\<close>

theorem non_overlapping_implication_rtl:
  assumes n: "n \<noteq> 0"
    and ty: "typeOf a = IntegerTy 1" "typeOf b = IntegerTy 1" "typeOf d = IntegerTy 1"
      "typeOf clk = IntegerTy 1"
    and p: "property = Res c (LTLClockOp e)
        [Res di LTLDisableOp
           [Res im LTLImplicationOp
              [Res cc LTLConcatOp
                 [a, Res dl (LTLDelayOp n (Some 0)) [Res one (ConstantLike 1) cops cty] dty] ccty,
               b] ity,
            d] dity,
         clk] pty"
    and rw: "wellFormed rw" "nextId rw = k"
    and old: "older k d" "older k clk" "\<forall>x. folder clk = Some x \<longrightarrow> older k x"
    and w: "w = IntegerTy (Suc (log2floor (unat n)))"
    and tc: "tc = (case folder clk of None \<Rightarrow> [(k + 7, seq_to_clock clk)] | Some x \<Rightarrow> [])"
    and ck: "clock = (case folder clk of None \<Rightarrow> New (k + 7) ClockTy | Some x \<Rightarrow> x)"
    and r: "r = k + 7 + length tc"
    and q: "q = r + unat n + 8"
  shows "matchAndRewrite folder (Res oa OtherKind [property] NoneTy) property label rw =
     (success,
      rw\<lparr> created := created rw @
          [(k, hw_constant w 0), (k + 1, hw_constant w 1),
           (k + 3, comb_add (New r w) (New (k + 1) w)),
           (k + 4, hw_constant w n),
           (k + 5, comb_icmp eq (New r w) (New (k + 4) w)),
           (k + 6, comb_mux (New (k + 5) i1) (New (k + 4) w) (New (k + 3) w))]
          @ tc @
          [(r, seq_compreg (New (k + 6) w) clock d (New k w) ''delay_'' (New k w)),
           (r + 1, hw_constant i1 0),
           (r + 2, seq_compreg a clock d (New (r + 1) i1) ''antecedent_0'' (New (r + 1) i1))]
          @ map (\<lambda>j. (r + 2 + j, seq_compreg (New (r + 1 + j) i1) clock d (New (r + 1) i1)
                                   (antecedentName j) (New (r + 1) i1))) [1..<unat n]
          @ [(r + unat n + 2, comb_icmp ult (New r w) (New (k + 4) w)),
             (r + unat n + 3, hw_constant i1 1),
             (r + unat n + 4, comb_xor (New (r + unat n + 1) i1) (New (r + unat n + 3) i1)),
             (r + unat n + 5, comb_or (New (r + unat n + 4) i1) b),
             (r + unat n + 6, comb_or (New (r + unat n + 2) i1) (New (r + unat n + 5) i1)),
             (r + unat n + 7, comb_or (New (r + unat n + 6) i1) d),
             (q, comb_or d (New (r + unat n + 7) i1)),
             (q + 1, sv_always (ltlToSVEventControl e) clk
                       [sv_assert (New q i1) Immediate label])],
          nextId := q + 2,
          replacedOps := replacedOps rw @ [(di, New q i1), (oa, Null)],
          erasedOps := erasedOps rw @ [c, im, cc, dl] \<rparr>)
     \<and> 2 ^ log2floor (unat n) \<le> unat n \<and> unat n < 2 ^ Suc (log2floor (unat n))"
proof -
  from n have pos: "1 \<le> unat n" by (simp add: unat_gt_0 Suc_le_eq)
  let ?dlo = "Res dl (LTLDelayOp n (Some 0)) [Res one (ConstantLike 1) cops cty] dty"
  let ?cco = "Res cc LTLConcatOp [a, ?dlo] ccty"
  let ?imo = "Res im LTLImplicationOp [?cco, b] ity"
  let ?dio = "Res di LTLDisableOp [?imo, d] dity"
  from matchNOI_on_noi [OF ty refl refl refl refl p]
  obtain b1 where m: "matchNOI property unbound = (True, b1)"
    and f: "antecedent b1 = a" "consequent b1 = b" "disableCond b1 = d" "ltlClock b1 = clk"
      "clockOp b1 = property" "disableOp b1 = ?dio" "implOp b1 = ?imo" "concatOp b1 = ?cco"
      "delayOp b1 = ?dlo" "disableInput b1 = Null"
    by blast
  let ?new = "[(k, hw_constant w 0), (k + 1, hw_constant w 1),
           (k + 3, comb_add (New r w) (New (k + 1) w)),
           (k + 4, hw_constant w n),
           (k + 5, comb_icmp eq (New r w) (New (k + 4) w)),
           (k + 6, comb_mux (New (k + 5) i1) (New (k + 4) w) (New (k + 3) w))]
          @ tc @
          [(r, seq_compreg (New (k + 6) w) clock d (New k w) ''delay_'' (New k w)),
           (r + 1, hw_constant i1 0),
           (r + 2, seq_compreg a clock d (New (r + 1) i1) ''antecedent_0'' (New (r + 1) i1))]
          @ map (\<lambda>j. (r + 2 + j, seq_compreg (New (r + 1 + j) i1) clock d (New (r + 1) i1)
                                   (antecedentName j) (New (r + 1) i1))) [1..<unat n]
          @ [(r + unat n + 2, comb_icmp ult (New r w) (New (k + 4) w)),
             (r + unat n + 3, hw_constant i1 1),
             (r + unat n + 4, comb_xor (New (r + unat n + 1) i1) (New (r + unat n + 3) i1)),
             (r + unat n + 5, comb_or (New (r + unat n + 4) i1) b),
             (r + unat n + 6, comb_or (New (r + unat n + 2) i1) (New (r + unat n + 5) i1)),
             (r + unat n + 7, comb_or (New (r + unat n + 6) i1) d)]"
  let ?rw1 = "rw\<lparr> created := created rw @ ?new, nextId := r + unat n + 8 \<rparr>"
  have noi: "makeNonOverlappingImplication folder a b ?dlo property d rw
      = (True, New (r + unat n + 7) i1, ?rw1)"
    unfolding p
    by (rule makeNonOverlappingImplication_created [where folder = folder and clkin = clk,
        OF n ty(1) rw old w tc ck r])
  have bd: "buildDisableInput folder property True b1 rw
      = Inr (b1\<lparr> disableInput := New (r + unat n + 7) i1 \<rparr>, ?rw1)"
    unfolding buildDisableInput_def f noi by simp
  have em: "emitAssertion (Res oa OtherKind [property] NoneTy) label
        (b1\<lparr> disableInput := New (r + unat n + 7) i1 \<rparr>) ?rw1 =
     (success,
      rw\<lparr> created := created rw @ ?new @
            [(q, comb_or d (New (r + unat n + 7) i1)),
             (q + 1, sv_always (ltlToSVEventControl e) clk
                       [sv_assert (New q i1) Immediate label])],
          nextId := q + 2,
          replacedOps := replacedOps rw @ [(di, New q i1), (oa, Null)],
          erasedOps := erasedOps rw @ [c, im, cc, dl] \<rparr>)"
    using ty(3)
    by (simp add: emitAssertion_def f p q visit_DisableOp_def create_def replaceOp_def
        replaceOpWithNewOp_def eraseOp_def i1_def Let_def)
  have "matchAndRewrite folder (Res oa OtherKind [property] NoneTy) property label rw
      = emitAssertion (Res oa OtherKind [property] NoneTy) label
        (b1\<lparr> disableInput := New (r + unat n + 7) i1 \<rparr>) ?rw1"
    by (simp add: matchAndRewrite_def m f bd)
  with em log2floor_bounds [OF pos] show ?thesis
    by simp
qed

lemma log2floor_3: "log2floor 3 = 1"
  by (simp add: log2floor.simps [of 3] log2floor.simps [of 1] log2floor.simps [of "Suc 0"])

theorem non_overlapping_implication_rtl_witness:
  "matchAndRewrite no_fold (assert_op (noi_property 3 (Some 0))) (noi_property 3 (Some 0))
       ''lbl'' empty_rewriter =
     (success,
      \<lparr> created =
          [(0, hw_constant (IntegerTy 2) 0),
           (1, hw_constant (IntegerTy 2) 1),
           (3, comb_add (New 8 (IntegerTy 2)) (New 1 (IntegerTy 2))),
           (4, hw_constant (IntegerTy 2) 3),
           (5, comb_icmp eq (New 8 (IntegerTy 2)) (New 4 (IntegerTy 2))),
           (6, comb_mux (New 5 i1) (New 4 (IntegerTy 2)) (New 3 (IntegerTy 2))),
           (7, seq_to_clock val_clk),
           (8, seq_compreg (New 6 (IntegerTy 2)) (New 7 ClockTy) val_d (New 0 (IntegerTy 2))
                 ''delay_'' (New 0 (IntegerTy 2))),
           (9, hw_constant i1 0),
           (10, seq_compreg val_a (New 7 ClockTy) val_d (New 9 i1) ''antecedent_0'' (New 9 i1)),
           (11, seq_compreg (New 10 i1) (New 7 ClockTy) val_d (New 9 i1) ''antecedent_1''
                  (New 9 i1)),
           (12, seq_compreg (New 11 i1) (New 7 ClockTy) val_d (New 9 i1) ''antecedent_2''
                  (New 9 i1)),
           (13, comb_icmp ult (New 8 (IntegerTy 2)) (New 4 (IntegerTy 2))),
           (14, hw_constant i1 1),
           (15, comb_xor (New 12 i1) (New 14 i1)),
           (16, comb_or (New 15 i1) val_b),
           (17, comb_or (New 13 i1) (New 16 i1)),
           (18, comb_or (New 17 i1) val_d),
           (19, comb_or val_d (New 18 i1)),
           (20, sv_always AtPosEdge val_clk [sv_assert (New 19 i1) Immediate ''lbl''])],
        nextId = 21,
        replacedOps = [(114, New 19 i1), (120, Null)],
        erasedOps = [115, 113, 112, 111] \<rparr>)"
proof -
  have h1: "(3::64 word) \<noteq> 0" by simp
  have h2: "typeOf val_a = IntegerTy 1" "typeOf val_b = IntegerTy 1"
    "typeOf val_d = IntegerTy 1" "typeOf val_clk = IntegerTy 1"
    by (simp_all add: value_defs)
  have h3: "noi_property 3 (Some 0) = Res 115 (LTLClockOp Pos)
        [Res 114 LTLDisableOp
           [Res 113 LTLImplicationOp
              [Res 112 LTLConcatOp
                 [val_a, Res 111 (LTLDelayOp 3 (Some 0)) [Res 110 (ConstantLike 1) [] (IntegerTy 1)]
                    SequenceTy] SequenceTy,
               val_b] PropertyTy,
            val_d] PropertyTy,
         val_clk] PropertyTy"
    by (simp add: noi_property_def)
  have h4: "wellFormed empty_rewriter" "nextId empty_rewriter = (0::nat)"
    by (simp_all add: wellFormed_def empty_rewriter_def)
  have h5: "older 0 val_d" "older 0 val_clk" "\<forall>x. no_fold val_clk = Some x \<longrightarrow> older 0 x"
    by (simp_all add: older_def value_defs)
  have h6: "IntegerTy 2 = IntegerTy (Suc (log2floor (unat (3::64 word))))"
    by (simp add: log2floor_3)
  have h7: "[(7::nat, seq_to_clock val_clk)] =
      (case no_fold val_clk of None \<Rightarrow> [((0::nat) + 7, seq_to_clock val_clk)] | Some x \<Rightarrow> [])"
    by (simp add: no_fold_def)
  have h8: "New 7 ClockTy = (case no_fold val_clk of None \<Rightarrow> New ((0::nat) + 7) ClockTy | Some x \<Rightarrow> x)"
    by (simp add: no_fold_def)
  have h9: "(8::nat) = (0::nat) + 7 + length [(7::nat, seq_to_clock val_clk)]" by simp
  have h10: "(19::nat) = 8 + unat (3::64 word) + 8" by simp
  have u: "[1..<unat (3::64 word)] = [1, 2]"
    by (simp add: upt_conv_Cons)
  have names: "antecedentName (Suc 0) = ''antecedent_1''" "antecedentName 2 = ''antecedent_2''"
    by (simp_all add: antecedentName_def dec_small digit_def)
  note inst = non_overlapping_implication_rtl [where oa = 120 and label = "''lbl''"
      and folder = no_fold and clk = val_clk and k = 0 and rw = empty_rewriter and n = 3
      and a = val_a and b = val_b and d = val_d,
      OF h1 h2 h3 h4 h5 h6 h7 h8 h9 h10]
  from inst [THEN conjunct1] show ?thesis
    unfolding u assert_op_def
    by (simp add: names empty_rewriter_def)
qed

text \<open>
  C2 at delay 0. The assertion \<open>a ##0 true |=> b\<close> is matched as a non-overlapping
  implication and rewritten. The registers the rewrite leaves are a delay counter of
  width 0 (\<open>Log2_64 0 + 1\<close> wraps to 0), where no \<open>floor(log2(0)) + 1\<close> exists, and one
  antecedent register, \<open>antecedent_0\<close>, where a pipeline of \<open>n = 0\<close> registers has none.
\<close>

theorem non_overlapping_delay_zero_counterexample:
  "(let res = matchAndRewrite no_fold (assert_op (noi_property 0 (Some 0)))
                (noi_property 0 (Some 0)) ''lbl'' empty_rewriter
    in fst res = success
     \<and> filter isReg (map snd (created (snd res))) =
         [seq_compreg (New 6 (IntegerTy 0)) (New 7 ClockTy) val_d (New 0 (IntegerTy 0))
            ''delay_'' (New 0 (IntegerTy 0)),
          seq_compreg val_a (New 7 ClockTy) val_d (New 9 i1) ''antecedent_0'' (New 9 i1)])"
  by (simp add: matchAndRewrite_def buildDisableInput_def emitAssertion_def
      makeNonOverlappingImplication_def makeDelayRegister_def makeAntecedentPipeline_def
      makeAssertionCondition_def visit_DisableOp_def match_defs value_defs rewriter_defs
      pipelineLoop.simps Log2_64_def countl_zero_def i1_def Let_def)

subsection \<open>has_been_reset\<close>

lemma of_bool_or: "(of_bool a :: 64 word) OR of_bool b = of_bool (a \<or> b)"
  by (cases a; cases b) simp_all

lemma of_bool_and: "(of_bool a :: 64 word) AND of_bool b = of_bool (a \<and> b)"
  by (cases a; cases b) simp_all

lemma of_bool_not: "(of_bool a :: 64 word) XOR 1 = of_bool (\<not> a)"
  by (cases a) simp_all

lemma valueOf_input:
  assumes "older k v" and "typeOf v = IntegerTy 1" and "\<forall>i \<in> set (map fst c). k \<le> i"
  shows "valueOf c ext env v = Some (of_bool (bit (ext v) 0))"
  using assms
  by (cases v) (auto simp: older_def bit_0 odd_iff_mod_2_eq_one even_iff_mod_2_eq_zero)

lemma HasBeenResetOpConversion_created:
  assumes rw: "wellFormed rw" "nextId rw = k"
    and ty: "typeOf reset = IntegerTy 1"
    and old: "older k reset" "older k clock" "\<forall>x. folder clock = Some x \<longrightarrow> older k x"
    and tc: "tc = (case folder clock of None \<Rightarrow> [(k + 4, seq_to_clock clock)] | Some x \<Rightarrow> [])"
    and ck: "clk = (case folder clock of None \<Rightarrow> New (k + 4) ClockTy | Some x \<Rightarrow> x)"
    and r: "r = k + 4 + length tc"
  shows "HasBeenResetOpConversion folder (Res a kind ops ty) clock reset rw =
     (success,
      rw\<lparr> created := created rw @
            [(k, hw_constant i1 0), (k + 1, hw_constant i1 1),
             (k + 3, comb_or reset (New r i1))] @ tc @
            [(r, seq_compreg (New (k + 3) i1) clk Null Null ''hbr'' (New k i1)),
             (r + 1, comb_xor reset (New (k + 1) i1)),
             (r + 2, comb_and (New r i1) (New (r + 1) i1))],
          nextId := r + 3,
          replacedOps := replacedOps rw @ [(a, New (r + 2) i1)] \<rparr>)"
proof (cases "folder clock")
  case None
  from old have ne: "reset \<noteq> New (k + 2) i1" "clock \<noteq> New (k + 2) i1"
    by (auto simp: older_def)
  show ?thesis
    using rw(2) ne None ty wellFormed_filter [OF rw(1), of "k + 2"]
    by (simp add: HasBeenResetOpConversion_def rewriter_defs tc ck r i1_def Let_def
        eval_nat_numeral wellFormed_subst [OF rw(1)])
next
  case (Some x)
  from old Some have ne: "reset \<noteq> New (k + 2) i1" "x \<noteq> New (k + 2) i1"
    by (auto simp: older_def)
  show ?thesis
    using rw(2) ne Some ty wellFormed_filter [OF rw(1), of "k + 2"]
    by (simp add: HasBeenResetOpConversion_def rewriter_defs tc ck r i1_def Let_def
        eval_nat_numeral wellFormed_subst [OF rw(1)])
qed

lemma hbr_cycle:
  assumes old: "older k reset" and ty: "typeOf reset = IntegerTy 1"
    and tcs: "tc = [] \<or> tc = [(k + 4, seq_to_clock clock)]"
    and r: "r = k + 4 + length tc"
    and c: "c = [(k, hw_constant i1 0), (k + 1, hw_constant i1 1),
             (k + 3, comb_or reset (New r i1))] @ tc @
            [(r, seq_compreg (New (k + 3) i1) clk Null Null ''hbr'' (New k i1)),
             (r + 1, comb_xor reset (New (k + 1) i1)),
             (r + 2, comb_and (New r i1) (New (r + 1) i1))]"
    and e: "env = cycle c ext ((\<lambda>i. None)(r := Some (of_bool g)))"
  shows "env (r + 2) = Some (of_bool (g \<and> \<not> bit (ext reset) 0))"
    and "tick c ext env = (\<lambda>i. None)(r := Some (of_bool (bit (ext reset) 0 \<or> g)))"
    and "powerOn c = (\<lambda>i. None)(r := Some (of_bool False))"
proof -
  have ids: "\<forall>i \<in> set (map fst c). k \<le> i"
    using tcs by (auto simp: c r)
  note v = valueOf_input [OF old ty ids]
  show "env (r + 2) = Some (of_bool (g \<and> \<not> bit (ext reset) 0))"
    using tcs v
    by (auto simp: e cycle_def r i1_def of_bool_or of_bool_and of_bool_not c)
  show "tick c ext env = (\<lambda>i. None)(r := Some (of_bool (bit (ext reset) 0 \<or> g)))"
    using tcs v
    by (auto simp: e cycle_def tick_def r i1_def of_bool_or of_bool_and of_bool_not c)
  show "powerOn c = (\<lambda>i. None)(r := Some (of_bool False))"
    using tcs by (auto simp: powerOn_def r i1_def c)
qed

lemma hbr_run:
  assumes old: "older k reset" and ty: "typeOf reset = IntegerTy 1"
    and tcs: "tc = [] \<or> tc = [(k + 4, seq_to_clock clock)]"
    and r: "r = k + 4 + length tc"
    and c: "c = [(k, hw_constant i1 0), (k + 1, hw_constant i1 1),
             (k + 3, comb_or reset (New r i1))] @ tc @
            [(r, seq_compreg (New (k + 3) i1) clk Null Null ''hbr'' (New k i1)),
             (r + 1, comb_xor reset (New (k + 1) i1)),
             (r + 2, comb_and (New r i1) (New (r + 1) i1))]"
  shows "map (\<lambda>env. env (r + 2)) (run c ((\<lambda>i. None)(r := Some (of_bool g))) exts)
       = map (\<lambda>b. Some (of_bool b)) (hbr_trace g (map (\<lambda>ext. bit (ext reset) 0) exts))"
proof (induction exts arbitrary: g)
  case Nil
  show ?case by simp
next
  case (Cons ext exts)
  let ?out = "\<lambda>env :: env. env (r + 2)"
  let ?regs = "(\<lambda>i. None)(r := Some (of_bool g))"
  let ?env = "cycle c ext ?regs"
  let ?g' = "bit (ext reset) 0 \<or> g"
  note h = hbr_cycle [where ext = ext and g = g, OF old ty tcs r c refl]
  have "map ?out (run c ?regs (ext # exts)) = ?env (r + 2) # map ?out (run c (tick c ext ?env) exts)"
    by (simp only: run.simps Let_def list.map)
  also have "\<dots> = Some (of_bool (g \<and> \<not> bit (ext reset) 0))
      # map ?out (run c ((\<lambda>i. None)(r := Some (of_bool ?g'))) exts)"
    by (simp only: h(1) h(2))
  also have "\<dots> = Some (of_bool (g \<and> \<not> bit (ext reset) 0))
      # map (\<lambda>b. Some (of_bool b)) (hbr_trace ?g' (map (\<lambda>ext. bit (ext reset) 0) exts))"
    by (simp only: Cons.IH)
  also have "\<dots> = map (\<lambda>b. Some (of_bool b))
      (hbr_trace g (map (\<lambda>ext. bit (ext reset) 0) (ext # exts)))"
    by (simp only: list.map hbr_trace.simps)
  finally show ?case .
qed

text \<open>
  C3. On a well-formed rewriter whose next number is \<open>k\<close>, for a 1-bit \<open>reset\<close>, the
  conversion of \<open>has_been_reset(clock, reset)\<close> succeeds, creates exactly the constants
  0 and 1, \<open>reset OR reg\<close>, the clock conversion (unless it folds), the register
  \<open>hbr\<close> on that clock, fed by \<open>reset OR reg\<close>, without reset and reset value, with
  the constant 0 as power-on value, \<open>reset XOR 1\<close> and \<open>reg AND (reset XOR 1)\<close>, and
  replaces the operation by the last (the back-edge placeholder \<open>k + 2\<close> is gone). Read
  as a circuit, over any sequence of cycles, the value of this result is that of the
  specification: \<open>reg AND (NOT reset)\<close> in each cycle, for a register that starts at
  0 and takes \<open>reset OR reg\<close> at each clock edge.
\<close>

theorem has_been_reset_circuit:
  assumes rw: "wellFormed rw" "nextId rw = k"
    and ty: "typeOf reset = IntegerTy 1"
    and old: "older k reset" "older k clock" "\<forall>x. folder clock = Some x \<longrightarrow> older k x"
    and tc: "tc = (case folder clock of None \<Rightarrow> [(k + 4, seq_to_clock clock)] | Some x \<Rightarrow> [])"
    and ck: "clk = (case folder clock of None \<Rightarrow> New (k + 4) ClockTy | Some x \<Rightarrow> x)"
    and r: "r = k + 4 + length tc"
    and c: "c = [(k, hw_constant i1 0), (k + 1, hw_constant i1 1),
             (k + 3, comb_or reset (New r i1))] @ tc @
            [(r, seq_compreg (New (k + 3) i1) clk Null Null ''hbr'' (New k i1)),
             (r + 1, comb_xor reset (New (k + 1) i1)),
             (r + 2, comb_and (New r i1) (New (r + 1) i1))]"
  shows "HasBeenResetOpConversion folder (Res a kind ops ty) clock reset rw =
           (success,
            rw\<lparr> created := created rw @ c, nextId := r + 3,
                replacedOps := replacedOps rw @ [(a, New (r + 2) i1)] \<rparr>)
       \<and> map (\<lambda>env. env (r + 2)) (simulate c exts)
           = map (\<lambda>b. Some (of_bool b)) (hbr_trace False (map (\<lambda>ext. bit (ext reset) 0) exts))"
proof -
  have tcs: "tc = [] \<or> tc = [(k + 4, seq_to_clock clock)]"
    using tc by (cases "folder clock") simp_all
  have a: "HasBeenResetOpConversion folder (Res a kind ops ty) clock reset rw =
           (success,
            rw\<lparr> created := created rw @ c, nextId := r + 3,
                replacedOps := replacedOps rw @ [(a, New (r + 2) i1)] \<rparr>)"
    unfolding c
    by (rule HasBeenResetOpConversion_created [where folder = folder and clock = clock,
        OF rw ty old tc ck r])
  have p: "powerOn c = (\<lambda>i. None)(r := Some (of_bool False))"
    by (rule hbr_cycle(3) [OF old(1) ty tcs r c refl])
  have b: "map (\<lambda>env. env (r + 2)) (simulate c exts)
           = map (\<lambda>b. Some (of_bool b)) (hbr_trace False (map (\<lambda>ext. bit (ext reset) 0) exts))"
    unfolding simulate_def p by (rule hbr_run [OF old(1) ty tcs r c])
  from a b show ?thesis by simp
qed

theorem has_been_reset_circuit_witness:
  "HasBeenResetOpConversion no_fold hbr_op val_clk val_reset empty_rewriter =
     (success,
      \<lparr> created =
          [(0, hw_constant i1 0),
           (1, hw_constant i1 1),
           (3, comb_or val_reset (New 5 i1)),
           (4, seq_to_clock val_clk),
           (5, seq_compreg (New 3 i1) (New 4 ClockTy) Null Null ''hbr'' (New 0 i1)),
           (6, comb_xor val_reset (New 1 i1)),
           (7, comb_and (New 5 i1) (New 6 i1))],
        nextId = 8, replacedOps = [(130, New 7 i1)], erasedOps = [] \<rparr>)
   \<and> map (\<lambda>env. env 7)
        (simulate
          [(0, hw_constant i1 0),
           (1, hw_constant i1 1),
           (3, comb_or val_reset (New 5 i1)),
           (4, seq_to_clock val_clk),
           (5, seq_compreg (New 3 i1) (New 4 ClockTy) Null Null ''hbr'' (New 0 i1)),
           (6, comb_xor val_reset (New 1 i1)),
           (7, comb_and (New 5 i1) (New 6 i1))]
          (reset_trace [True, True, False, False, True, False]))
       = [Some 0, Some 0, Some 1, Some 1, Some 0, Some 1]"
proof -
  have h1: "wellFormed empty_rewriter" "nextId empty_rewriter = (0::nat)"
    by (simp_all add: wellFormed_def empty_rewriter_def)
  have h2: "typeOf val_reset = IntegerTy 1" by (simp add: val_reset_def)
  have h3: "older 0 val_reset" "older 0 val_clk" "\<forall>x. no_fold val_clk = Some x \<longrightarrow> older 0 x"
    by (simp_all add: older_def val_reset_def val_clk_def no_fold_def)
  have h4: "[(4::nat, seq_to_clock val_clk)] =
      (case no_fold val_clk of None \<Rightarrow> [((0::nat) + 4, seq_to_clock val_clk)] | Some x \<Rightarrow> [])"
    by (simp add: no_fold_def)
  have h5: "New 4 ClockTy = (case no_fold val_clk of None \<Rightarrow> New ((0::nat) + 4) ClockTy | Some x \<Rightarrow> x)"
    by (simp add: no_fold_def)
  have h6: "(5::nat) = (0::nat) + 4 + length [(4::nat, seq_to_clock val_clk)]" by simp
  have h7: "[(0, hw_constant i1 0),
           (1, hw_constant i1 1),
           (3, comb_or val_reset (New 5 i1)),
           (4, seq_to_clock val_clk),
           (5, seq_compreg (New 3 i1) (New 4 ClockTy) Null Null ''hbr'' (New 0 i1)),
           (6, comb_xor val_reset (New 1 i1)),
           (7, comb_and (New 5 i1) (New 6 i1))]
      = [((0::nat), hw_constant i1 0), (0 + 1, hw_constant i1 1),
             (0 + 3, comb_or val_reset (New 5 i1))] @ [(4::nat, seq_to_clock val_clk)] @
            [(5, seq_compreg (New (0 + 3) i1) (New 4 ClockTy) Null Null ''hbr'' (New 0 i1)),
             (5 + 1, comb_xor val_reset (New (0 + 1) i1)),
             (5 + 2, comb_and (New 5 i1) (New (5 + 1) i1))]"
    by simp
  note inst = has_been_reset_circuit [where folder = no_fold and clock = val_clk and k = 0
      and rw = empty_rewriter and reset = val_reset
      and exts = "reset_trace [True, True, False, False, True, False]",
      OF h1 h2 h3 h4 h5 h6 h7]
  from inst show ?thesis
    by (simp add: hbr_op_def empty_rewriter_def reset_trace_def)
qed

end
